theory Spec2Isabelle
  imports Main
begin

unbundle bit_operations_syntax

section \<open>JavaScript values and operators used by bmp_utils.js\<close>

text \<open>
  Widths, heights, depths, indices and pixel values are JavaScript numbers holding
  integers; they are modelled as \<open>int\<close>. A read outside an array yields \<open>undefined\<close>,
  and \<open>undefined + n\<close> is \<open>NaN\<close>, so the result of such a read or sum is a \<open>jsval\<close>.
\<close>

datatype jsval = Undefined | NaN | Num int

text \<open>
  The exceptions the code can raise come first. The last four names are the error
  taxonomy of the specification; no path of the code constructs them.
\<close>

datatype error = TypeError | ReferenceError | RangeError
  | InvalidDimension | UnsupportedDepth | PixelBufferLengthMismatch | PaletteSizeMismatch

text \<open>\<open>ToInt32\<close>: the operand conversion of \<open><<\<close>, \<open>>>\<close>, \<open>&\<close> and \<open>|\<close>
  (two's complement wrap to 32 bits; \<open>undefined\<close> and \<open>NaN\<close> become 0).\<close>

definition int32 :: "int \<Rightarrow> int" where
  "int32 n = signed_take_bit 31 n"

definition ToInt32 :: "jsval \<Rightarrow> int" where
  "ToInt32 v = (case v of Num n \<Rightarrow> int32 n | _ \<Rightarrow> 0)"

text \<open>\<open>a << n\<close>, \<open>a >> n\<close> (arithmetic), \<open>a & b\<close> and \<open>a | b\<close> on numbers, for \<open>n < 32\<close>.\<close>

definition shl32 :: "int \<Rightarrow> nat \<Rightarrow> int" where
  "shl32 a n = int32 (push_bit n (int32 a))"

definition sar32 :: "int \<Rightarrow> nat \<Rightarrow> int" where
  "sar32 a n = drop_bit n (int32 a)"

definition and32 :: "int \<Rightarrow> int \<Rightarrow> int" where
  "and32 a b = int32 a AND int32 b"

definition or32 :: "int \<Rightarrow> int \<Rightarrow> int" where
  "or32 a b = int32 a OR int32 b"

text \<open>\<open>v + n\<close> where \<open>v\<close> may be \<open>undefined\<close> and \<open>n\<close> is a number.\<close>

definition js_plus :: "jsval \<Rightarrow> int \<Rightarrow> jsval" where
  "js_plus v n = (case v of Num a \<Rightarrow> Num (a + n) | _ \<Rightarrow> NaN)"

text \<open>\<open>a % b\<close> on integers: the remainder takes the sign of the dividend.\<close>

definition js_rem :: "int \<Rightarrow> int \<Rightarrow> int" where
  "js_rem a b = sgn a * (\<bar>a\<bar> mod \<bar>b\<bar>)"

text \<open>\<open>Math.round(a / b)\<close> for integers \<open>a\<close> and \<open>b > 0\<close>: the nearest integer, a tie
  going towards plus infinity, that is \<open>floor (a / b + 1 / 2)\<close>.\<close>

definition Math_round_div :: "int \<Rightarrow> int \<Rightarrow> int" where
  "Math_round_div a b = (2 * a + b) div (2 * b)"

text \<open>\<open>clArray[i]\<close>: \<open>undefined\<close> outside the array, also at a negative index.\<close>

definition js_get :: "int list \<Rightarrow> int \<Rightarrow> jsval" where
  "js_get xs i = (if 0 \<le> i \<and> i < int (length xs) then Num (xs ! nat i) else Undefined)"

text \<open>
  \<open>new Uint8Array(n)\<close>: a zero-filled buffer; \<open>RangeError\<close> when \<open>n\<close> is negative or
  above \<open>2^53 - 1\<close> (the language's index limit). The bytes are held as integers in
  \<open>0..255\<close>. A store outside the buffer is ignored; a stored number is reduced modulo
  256, and \<open>undefined\<close> and \<open>NaN\<close> are stored as 0.
\<close>

definition new_Uint8Array :: "int \<Rightarrow> error + int list" where
  "new_Uint8Array n =
     (if n < 0 \<or> 2 ^ 53 - 1 < n then Inl RangeError else Inr (replicate (nat n) 0))"

definition u8_set :: "int list \<Rightarrow> int \<Rightarrow> int \<Rightarrow> int list" where
  "u8_set bytes k n =
     (if 0 \<le> k \<and> k < int (length bytes) then bytes[nat k := n mod 256] else bytes)"

definition u8_set_val :: "int list \<Rightarrow> int \<Rightarrow> jsval \<Rightarrow> int list" where
  "u8_set_val bytes k v = u8_set bytes k (case v of Num n \<Rightarrow> n | _ \<Rightarrow> 0)"

text \<open>A block of stores \<open>bytes[k] = v\<close>, in the order written.\<close>

fun u8_set_all :: "int list \<Rightarrow> (int \<times> int) list \<Rightarrow> int list" where
  "u8_set_all bytes [] = bytes"
| "u8_set_all bytes ((k, v) # kvs) = u8_set_all (u8_set bytes k v) kvs"

text \<open>An assignment to a \<open>const\<close> binding: the right-hand side is evaluated, then the
  assignment throws \<open>TypeError\<close>; no value results.\<close>

definition assign_const :: "int \<Rightarrow> error + int" where
  "assign_const v = Inl TypeError"

section \<open>Constants\<close>

definition FILE_HEADER_SIZE :: int where "FILE_HEADER_SIZE = 14"
definition IMG_HEADER_SIZE :: int where "IMG_HEADER_SIZE = 40"
definition ascii_B :: int where "ascii_B = 66"
definition ascii_M :: int where "ascii_M = 77"
definition PALETTE_BYTE_SIZE :: int where "PALETTE_BYTE_SIZE = 4"
definition PIX_1BIT :: int where "PIX_1BIT = 8"
definition PIX_4BIT :: int where "PIX_4BIT = 2"
definition DPI_200_PIX_PER_M :: int where "DPI_200_PIX_PER_M = 7874"

section \<open>getPixelBytes, getPaletteBytes, split2bytes\<close>

record geometry =
  pixelSize :: int
  rowSizeBase :: int
  deltaBase :: int

definition getPixelBytes :: "int \<Rightarrow> int \<Rightarrow> int \<Rightarrow> geometry" where
  "getPixelBytes width height encoding =
     (let rowSize0 =
            (if encoding = 1 then Math_round_div width 8
             else if encoding = 4 then Math_round_div width 2
             else if encoding = 8 then width
             else if encoding = 16 then 2 * width
             else if encoding = 24 then 3 * width
             else if encoding = 32 then 4 * width
             else 3 * width);
          delta = js_rem rowSize0 4;
          rowSize = (rowSize0 - delta) + (if delta > 0 then 4 else 0)
      in \<lparr>pixelSize = rowSize * height, rowSizeBase = rowSize0,
          deltaBase = rowSize - rowSize0\<rparr>)"

definition getPaletteBytes :: "int \<Rightarrow> int" where
  "getPaletteBytes encoding =
     (if encoding = 1 then 2 * PALETTE_BYTE_SIZE
      else if encoding = 4 then 16 * PALETTE_BYTE_SIZE
      else if encoding = 8 then 256 * PALETTE_BYTE_SIZE
      else 0)"

definition split2bytes :: "int \<Rightarrow> int list" where
  "split2bytes val =
     (let byteSecond = sar32 val 8;
          byteThird = sar32 byteSecond 8;
          byteFourth = sar32 byteThird 8
      in [and32 val 255, and32 byteSecond 255, and32 byteThird 255, and32 byteFourth 255])"

section \<open>createHeader\<close>

record header =
  h_bytes :: "int list"
  h_rowSizeBase :: int
  h_deltaBase :: int

definition paletteItems :: "int \<Rightarrow> int" where
  "paletteItems encoding =
     (let p0 = 0;
          p1 = (if encoding = 1 then 2 else p0);
          p2 = (if encoding = 4 then 16 else p1)
      in (if encoding = 8 then 256 else p2))"

definition header_stores :: "int \<Rightarrow> int \<Rightarrow> int \<Rightarrow> int \<Rightarrow> int \<Rightarrow> (int \<times> int) list" where
  "header_stores fileSize headerSize width height encoding =
     (let f_byte = split2bytes fileSize;
          h_byte = split2bytes headerSize;
          width_byte = split2bytes width;
          height_byte = split2bytes height;
          resolution_byte = split2bytes DPI_200_PIX_PER_M;
          palette_byte = split2bytes (paletteItems encoding)
      in [(0, ascii_B), (1, ascii_M),
          (2, f_byte ! 0), (3, f_byte ! 1), (4, f_byte ! 2), (5, f_byte ! 3),
          (6, 0), (7, 0), (8, 0), (9, 0),
          (10, h_byte ! 0), (11, h_byte ! 1), (12, h_byte ! 2), (13, h_byte ! 3),
          (14, IMG_HEADER_SIZE), (15, 0), (16, 0), (17, 0),
          (18, width_byte ! 0), (19, width_byte ! 1), (20, width_byte ! 2), (21, width_byte ! 3),
          (22, height_byte ! 0), (23, height_byte ! 1), (24, height_byte ! 2),
          (25, height_byte ! 3),
          (26, 1), (27, 0), (28, encoding), (29, 0),
          (30, 0), (31, 0), (32, 0), (33, 0),
          (34, 0), (35, 0), (36, 0), (37, 0),
          (38, resolution_byte ! 0), (39, resolution_byte ! 1), (40, resolution_byte ! 2),
          (41, resolution_byte ! 3),
          (42, resolution_byte ! 0), (43, resolution_byte ! 1), (44, resolution_byte ! 2),
          (45, resolution_byte ! 3),
          (46, palette_byte ! 0), (47, palette_byte ! 1), (48, 0), (49, 0),
          (50, 0), (51, 0), (52, 0), (53, 0)])"

definition createHeader :: "int \<Rightarrow> int \<Rightarrow> int \<Rightarrow> error + header" where
  "createHeader width height encoding =
     (let g = getPixelBytes width height encoding;
          paletteSize = getPaletteBytes encoding;
          headerSize = FILE_HEADER_SIZE + IMG_HEADER_SIZE + paletteSize;
          fileSize = headerSize + pixelSize g
      in case new_Uint8Array fileSize of
           Inl e \<Rightarrow> Inl e
         | Inr buf \<Rightarrow>
             Inr \<lparr>h_bytes = u8_set_all buf (header_stores fileSize headerSize width height encoding),
                  h_rowSizeBase = rowSizeBase g, h_deltaBase = deltaBase g\<rparr>)"

section \<open>fillPalette\<close>

record rgb =
  R :: int
  G :: int
  B :: int

fun fillPalette_loop :: "int list \<Rightarrow> int \<Rightarrow> rgb list \<Rightarrow> int list" where
  "fillPalette_loop bytes k [] = bytes"
| "fillPalette_loop bytes k (p # ps) =
     fillPalette_loop
       (u8_set (u8_set (u8_set (u8_set bytes k (R p)) (k + 1) (G p)) (k + 2) (B p)) (k + 3) 0)
       (k + 4) ps"

definition fillPalette :: "int list \<Rightarrow> rgb list \<Rightarrow> int list" where
  "fillPalette bytes palette =
     fillPalette_loop bytes (FILE_HEADER_SIZE + IMG_HEADER_SIZE) palette"

section \<open>The pixel encoders\<close>

text \<open>The byte stored by one iteration of the 1-bit encoder: a left-to-right sum whose
  first operand is the bare read \<open>clArray[i_active + 7]\<close>.\<close>

definition pack_1 :: "int list \<Rightarrow> int \<Rightarrow> jsval" where
  "pack_1 clArray i_active =
     js_plus (js_plus (js_plus (js_plus (js_plus (js_plus (js_plus
       (js_get clArray (i_active + 7))
       (shl32 (ToInt32 (js_get clArray (i_active + 6))) 1))
       (shl32 (ToInt32 (js_get clArray (i_active + 5))) 2))
       (shl32 (ToInt32 (js_get clArray (i_active + 4))) 3))
       (shl32 (ToInt32 (js_get clArray (i_active + 3))) 4))
       (shl32 (ToInt32 (js_get clArray (i_active + 2))) 5))
       (shl32 (ToInt32 (js_get clArray (i_active + 1))) 6))
       (shl32 (ToInt32 (js_get clArray i_active)) 7)"

function fillColorData_1_loop ::
  "int list \<Rightarrow> int \<Rightarrow> int \<Rightarrow> int \<Rightarrow> int \<Rightarrow> int \<Rightarrow> int \<Rightarrow> int \<Rightarrow> int list \<Rightarrow> int list" where
  "fillColorData_1_loop clArray rowSize delta deltaRow i k i_row i0 bytes =
     (if i < int (length clArray) then
        (if i_row + 1 = rowSize
         then fillColorData_1_loop clArray rowSize delta deltaRow (i + 8) (k + 1 + delta) 0
                (i0 - deltaRow) (u8_set_val bytes k (pack_1 clArray (shl32 i_row 3 + i0)))
         else fillColorData_1_loop clArray rowSize delta deltaRow (i + 8) (k + 1) (i_row + 1)
                i0 (u8_set_val bytes k (pack_1 clArray (shl32 i_row 3 + i0))))
      else bytes)"
  by pat_completeness auto
termination
  by (relation "measure (\<lambda>(clArray, rowSize, delta, deltaRow, i, k, i_row, i0, bytes).
        nat (int (length clArray) - i))") auto

definition fillColorData_1 :: "int list \<Rightarrow> int list \<Rightarrow> int \<Rightarrow> int \<Rightarrow> int \<Rightarrow> int list" where
  "fillColorData_1 bytes clArray paletteSize rowSize delta =
     (let pointSize = int (length clArray);
          k = FILE_HEADER_SIZE + IMG_HEADER_SIZE + paletteSize;
          deltaRow = rowSize * PIX_1BIT;
          i0 = pointSize - deltaRow
      in fillColorData_1_loop clArray rowSize delta deltaRow 0 k 0 i0 bytes)"

definition pack_4 :: "int list \<Rightarrow> int \<Rightarrow> int" where
  "pack_4 clArray i_active =
     or32 (ToInt32 (js_get clArray (i_active + 1)))
          (shl32 (ToInt32 (js_get clArray i_active)) 4)"

function fillColorData_4_loop ::
  "int list \<Rightarrow> int \<Rightarrow> int \<Rightarrow> int \<Rightarrow> int \<Rightarrow> int \<Rightarrow> int \<Rightarrow> int \<Rightarrow> int list \<Rightarrow> int list" where
  "fillColorData_4_loop clArray rowSize delta deltaRow i k i_row i0 bytes =
     (if i < int (length clArray) then
        (if i_row + 1 = rowSize
         then fillColorData_4_loop clArray rowSize delta deltaRow (i + 2) (k + 1 + delta) 0
                (i0 - deltaRow) (u8_set bytes k (pack_4 clArray (shl32 i_row 1 + i0)))
         else fillColorData_4_loop clArray rowSize delta deltaRow (i + 2) (k + 1) (i_row + 1)
                i0 (u8_set bytes k (pack_4 clArray (shl32 i_row 1 + i0))))
      else bytes)"
  by pat_completeness auto
termination
  by (relation "measure (\<lambda>(clArray, rowSize, delta, deltaRow, i, k, i_row, i0, bytes).
        nat (int (length clArray) - i))") auto

definition fillColorData_4 :: "int list \<Rightarrow> int list \<Rightarrow> int \<Rightarrow> int \<Rightarrow> int \<Rightarrow> int list" where
  "fillColorData_4 bytes clArray paletteSize rowSize delta =
     (let k = FILE_HEADER_SIZE + IMG_HEADER_SIZE + paletteSize;
          pointSize = int (length clArray);
          deltaRow = rowSize * PIX_4BIT;
          i0 = pointSize - deltaRow
      in fillColorData_4_loop clArray rowSize delta deltaRow 0 k 0 i0 bytes)"

function fillColorData_8_loop ::
  "int list \<Rightarrow> int \<Rightarrow> int \<Rightarrow> int \<Rightarrow> int \<Rightarrow> int \<Rightarrow> int \<Rightarrow> int list \<Rightarrow> int list" where
  "fillColorData_8_loop clArray rowSize delta i k i_row i_active bytes =
     (if i < int (length clArray) then
        (if i_row + 1 = rowSize
         then fillColorData_8_loop clArray rowSize delta (i + 1) (k + 1 + delta) 0
                (i_active - rowSize) (u8_set_val bytes k (js_get clArray (i_active + i_row)))
         else fillColorData_8_loop clArray rowSize delta (i + 1) (k + 1) (i_row + 1)
                i_active (u8_set_val bytes k (js_get clArray (i_active + i_row))))
      else bytes)"
  by pat_completeness auto
termination
  by (relation "measure (\<lambda>(clArray, rowSize, delta, i, k, i_row, i_active, bytes).
        nat (int (length clArray) - i))") auto

definition fillColorData_8 :: "int list \<Rightarrow> int list \<Rightarrow> int \<Rightarrow> int \<Rightarrow> int \<Rightarrow> int list" where
  "fillColorData_8 bytes clArray paletteSize rowSize delta =
     (let pointSize = int (length clArray);
          i_active = pointSize - rowSize;
          k = FILE_HEADER_SIZE + IMG_HEADER_SIZE + paletteSize
      in fillColorData_8_loop clArray rowSize delta 0 k 0 i_active bytes)"

text \<open>
  The 16-bit and 24-bit encoders open with \<open>let k = FILE_HEADER_SIZE = 14 + IMG_HEADER_SIZE\<close>,
  an assignment to a \<open>const\<close> binding. The loops that follow are modelled as written.
\<close>

fun fillColorData_16_loop :: "int list \<Rightarrow> int \<Rightarrow> int list \<Rightarrow> int list" where
  "fillColorData_16_loop bytes k [] = bytes"
| "fillColorData_16_loop bytes k (c # cs) =
     fillColorData_16_loop
       (u8_set (u8_set bytes k (and32 c 255)) (k + 1) (and32 (sar32 c 8) 255)) (k + 2) cs"

definition fillColorData_16 :: "int list \<Rightarrow> int list \<Rightarrow> error + int list" where
  "fillColorData_16 bytes clArray =
     (case assign_const (14 + IMG_HEADER_SIZE) of
        Inl e \<Rightarrow> Inl e
      | Inr k \<Rightarrow> Inr (fillColorData_16_loop bytes k clArray))"

text \<open>
  \<open>fillColorData_24\<close> declares the single parameter \<open>clArray\<close>; the caller passes the
  buffer first, so the parameter is bound to the buffer and the pixel array is dropped.
  Its loop body stores through the identifier \<open>bytes\<close>, which is declared nowhere in its
  scope: the first iteration would throw \<open>ReferenceError\<close>. It returns no value and
  changes no array.
\<close>

definition fillColorData_24_loop :: "int \<Rightarrow> int list \<Rightarrow> error + unit" where
  "fillColorData_24_loop k clArray =
     (if 0 < int (length clArray) then Inl ReferenceError else Inr ())"

definition fillColorData_24 :: "int list \<Rightarrow> error + unit" where
  "fillColorData_24 clArray =
     (case assign_const (14 + IMG_HEADER_SIZE) of
        Inl e \<Rightarrow> Inl e
      | Inr k \<Rightarrow> fillColorData_24_loop k clArray)"

section \<open>saveAsBMP\<close>

text \<open>
  The model of \<open>saveAsBMP\<close> is the buffer handed to \<open>writeFile\<close>, or the exception that
  rejects the promise before that point. Writing the file is outside the model.
\<close>

definition switch_encoding ::
  "int \<Rightarrow> int list \<Rightarrow> int list \<Rightarrow> int \<Rightarrow> int \<Rightarrow> int \<Rightarrow> error + int list" where
  "switch_encoding encoding bytes1 clArray paletteSize rowSize delta =
     (if encoding = 1 then Inr (fillColorData_1 bytes1 clArray paletteSize rowSize delta)
      else if encoding = 4 then Inr (fillColorData_4 bytes1 clArray paletteSize rowSize delta)
      else if encoding = 8 then Inr (fillColorData_8 bytes1 clArray paletteSize rowSize delta)
      else if encoding = 16 then fillColorData_16 bytes1 clArray
      else (case fillColorData_24 bytes1 of
              Inl e \<Rightarrow> Inl e
            | Inr _ \<Rightarrow> Inr bytes1))"

definition saveAsBMP ::
  "int list \<Rightarrow> int \<Rightarrow> int \<Rightarrow> int \<Rightarrow> rgb list \<Rightarrow> error + int list" where
  "saveAsBMP clArray width height encoding palette =
     (case createHeader width height encoding of
        Inl e \<Rightarrow> Inl e
      | Inr h \<Rightarrow>
          (let paletteSize = int (length palette) * PALETTE_BYTE_SIZE;
               bytes1 = (if paletteSize > 0 then fillPalette (h_bytes h) palette else h_bytes h)
           in switch_encoding encoding bytes1 clArray paletteSize
                (h_rowSizeBase h) (h_deltaBase h)))"

section \<open>Reading the produced file\<close>

text \<open>The size \<open>createHeader\<close> computes for the file (its local \<open>fileSize\<close>).\<close>

definition fileByteSize :: "int \<Rightarrow> int \<Rightarrow> int \<Rightarrow> int" where
  "fileByteSize width height encoding =
     FILE_HEADER_SIZE + IMG_HEADER_SIZE + getPaletteBytes encoding
       + pixelSize (getPixelBytes width height encoding)"

text \<open>Little-endian decoding of a 2-byte and of a 4-byte field at an offset.\<close>

definition le16 :: "int list \<Rightarrow> nat \<Rightarrow> int" where
  "le16 bs off = bs ! off + 256 * bs ! (off + 1)"

definition le32 :: "int list \<Rightarrow> nat \<Rightarrow> int" where
  "le32 bs off =
     bs ! off + 256 * bs ! (off + 1) + 65536 * bs ! (off + 2) + 16777216 * bs ! (off + 3)"

text \<open>The byte that holds eight 0/1 pixels starting at index \<open>a\<close>, the first pixel in
  the most significant bit and the eighth in the least significant bit.\<close>

definition msb_first_byte :: "int list \<Rightarrow> int \<Rightarrow> int" where
  "msb_first_byte px a =
     128 * px ! nat a + 64 * px ! nat (a + 1) + 32 * px ! nat (a + 2) + 16 * px ! nat (a + 3)
       + 8 * px ! nat (a + 4) + 4 * px ! nat (a + 5) + 2 * px ! nat (a + 6) + px ! nat (a + 7)"

lemmas consts_defs = FILE_HEADER_SIZE_def IMG_HEADER_SIZE_def ascii_B_def ascii_M_def
  PALETTE_BYTE_SIZE_def PIX_1BIT_def PIX_4BIT_def DPI_200_PIX_PER_M_def

section \<open>Row geometry\<close>

lemma js_rem_4_nonneg: "0 \<le> a \<Longrightarrow> js_rem a 4 = a mod 4"
  by (cases "a = 0") (simp_all add: js_rem_def)

lemma getPixelBytes_deltaBase:
  "deltaBase (getPixelBytes width height encoding) =
     (let b = rowSizeBase (getPixelBytes width height encoding); d = js_rem b 4
      in (b - d) + (if d > 0 then 4 else 0) - b)"
  by (simp add: getPixelBytes_def Let_def)

lemma getPixelBytes_pixelSize:
  "pixelSize (getPixelBytes width height encoding) =
     (rowSizeBase (getPixelBytes width height encoding)
       + deltaBase (getPixelBytes width height encoding)) * height"
  by (simp add: getPixelBytes_def Let_def)

lemma pad_range:
  "0 \<le> (b - js_rem b 4) + (if js_rem b 4 > 0 then 4 else 0) - b
   \<and> (b - js_rem b 4) + (if js_rem b 4 > 0 then 4 else 0) - b \<le> 3"
proof (cases "0 \<le> b")
  case True
  then show ?thesis by (simp add: js_rem_4_nonneg) presburger
next
  case False
  then have "js_rem b 4 = - ((- b) mod 4)" by (simp add: js_rem_def)
  then show ?thesis by simp presburger
qed

lemma deltaBase_range:
  "0 \<le> deltaBase (getPixelBytes width height encoding)"
  "deltaBase (getPixelBytes width height encoding) \<le> 3"
  using pad_range [of "rowSizeBase (getPixelBytes width height encoding)"]
  by (simp_all add: getPixelBytes_deltaBase Let_def)

lemma rowSizeBase_nonneg:
  "0 \<le> width \<Longrightarrow> 0 \<le> rowSizeBase (getPixelBytes width height encoding)"
  by (simp add: getPixelBytes_def Let_def Math_round_div_def pos_imp_zdiv_nonneg_iff)

lemma pixelSize_nonneg:
  "0 \<le> width \<Longrightarrow> 0 \<le> height \<Longrightarrow> 0 \<le> pixelSize (getPixelBytes width height encoding)"
  using rowSizeBase_nonneg [of width height encoding] deltaBase_range(1) [of width height encoding]
  by (simp add: getPixelBytes_pixelSize)

text \<open>
  Claim C9. For every width above 0 and every supported depth, the padded row size of
  \<open>getPixelBytes\<close> (the unpadded size \<open>rowSizeBase\<close> plus the padding \<open>deltaBase\<close>, the
  factor of \<open>pixelSize\<close>) is a multiple of 4, is at least \<open>rowSizeBase\<close>, and is below
  every other multiple of 4 that is at least \<open>rowSizeBase\<close>; the padding is 0, 1, 2 or 3.
\<close>

theorem padded_row_size_least_multiple_of_4:
  assumes "0 < width" and "encoding \<in> {1, 4, 8, 16, 24}"
  shows "let g = getPixelBytes width height encoding;
             rowSize = rowSizeBase g + deltaBase g
         in rowSize mod 4 = 0 \<and> rowSizeBase g \<le> rowSize
            \<and> (\<forall>m. m mod 4 = 0 \<and> rowSizeBase g \<le> m \<longrightarrow> rowSize \<le> m)
            \<and> deltaBase g \<in> {0, 1, 2, 3} \<and> pixelSize g = rowSize * height"
proof -
  define b where "b = rowSizeBase (getPixelBytes width height encoding)"
  have b0: "0 \<le> b"
    unfolding b_def using assms(1) by (simp add: rowSizeBase_nonneg)
  have m0: "0 \<le> b mod 4" by simp
  have d: "deltaBase (getPixelBytes width height encoding)
             = (if b mod 4 > 0 then 4 - b mod 4 else 0)"
    using b0 m0
    by (simp add: getPixelBytes_deltaBase Let_def js_rem_4_nonneg b_def [symmetric]
          del: pos_mod_sign)
  have 1: "(b + (if b mod 4 > 0 then 4 - b mod 4 else 0)) mod 4 = 0"
    by presburger
  have 2: "\<forall>m. m mod 4 = 0 \<and> b \<le> m \<longrightarrow> b + (if b mod 4 > 0 then 4 - b mod 4 else 0) \<le> m"
    by presburger
  have 3: "(if b mod 4 > 0 then 4 - b mod 4 else 0) \<in> {0, 1, 2, 3}"
    by (simp; presburger)
  have 4: "0 \<le> (if b mod 4 > 0 then 4 - b mod 4 else 0)"
    by presburger
  show ?thesis
    unfolding Let_def getPixelBytes_pixelSize unfolding b_def [symmetric] d
    using 1 2 3 4 by simp
qed

theorem padded_row_size_witness:
  "rowSizeBase (getPixelBytes 3 2 24) = 9 \<and> deltaBase (getPixelBytes 3 2 24) = 3
   \<and> pixelSize (getPixelBytes 3 2 24) = 24"
  using padded_row_size_least_multiple_of_4 [of 3 24 2]
  by (simp add: getPixelBytes_def Let_def js_rem_def)

section \<open>Stores into the buffer\<close>

lemma length_u8_set [simp]: "length (u8_set bs k n) = length bs"
  by (simp add: u8_set_def)

lemma length_u8_set_val [simp]: "length (u8_set_val bs k v) = length bs"
  by (simp add: u8_set_val_def)

lemma length_u8_set_all [simp]: "length (u8_set_all bs kvs) = length bs"
  by (induction kvs arbitrary: bs) auto

lemma u8_set_nth_other: "int p \<noteq> k \<Longrightarrow> u8_set bs k n ! p = bs ! p"
  by (auto simp: u8_set_def nth_list_update)

lemma u8_set_nth_same: "p < length bs \<Longrightarrow> u8_set bs (int p) n ! p = n mod 256"
  by (simp add: u8_set_def)

lemma u8_set_val_nth_other: "int p \<noteq> k \<Longrightarrow> u8_set_val bs k v ! p = bs ! p"
  by (simp add: u8_set_val_def u8_set_nth_other)

lemma u8_set_all_nth_other:
  "int p \<notin> fst ` set kvs \<Longrightarrow> u8_set_all bs kvs ! p = bs ! p"
  by (induction kvs arbitrary: bs) (auto simp: u8_set_nth_other)

lemma u8_set_all_nth:
  "distinct (map fst kvs) \<Longrightarrow> (int p, v) \<in> set kvs \<Longrightarrow> p < length bs
     \<Longrightarrow> u8_set_all bs kvs ! p = v mod 256"
proof (induction kvs arbitrary: bs)
  case Nil
  then show ?case by simp
next
  case (Cons a kvs)
  obtain k n where a: "a = (k, n)" by (cases a)
  show ?case
  proof (cases "(int p, v) = a")
    case True
    with Cons.prems a have k: "k = int p" "v = n" "int p \<notin> fst ` set kvs"
      by auto
    show ?thesis
      using Cons.prems(3) unfolding a k(1)
      by (simp add: u8_set_all_nth_other k(3) u8_set_nth_same k(2))
  next
    case False
    with Cons a show ?thesis by auto
  qed
qed

section \<open>What createHeader returns\<close>

lemma createHeader_Inr:
  assumes "createHeader width height encoding = Inr h"
  shows "0 \<le> fileByteSize width height encoding"
    and "fileByteSize width height encoding \<le> 2 ^ 53 - 1"
    and "h_bytes h = u8_set_all (replicate (nat (fileByteSize width height encoding)) 0)
           (header_stores (fileByteSize width height encoding)
              (FILE_HEADER_SIZE + IMG_HEADER_SIZE + getPaletteBytes encoding)
              width height encoding)"
    and "h_rowSizeBase h = rowSizeBase (getPixelBytes width height encoding)"
    and "h_deltaBase h = deltaBase (getPixelBytes width height encoding)"
  using assms
  by (auto simp: createHeader_def fileByteSize_def new_Uint8Array_def Let_def split: if_splits)

lemma createHeader_total:
  assumes "0 \<le> fileByteSize width height encoding"
    and "fileByteSize width height encoding \<le> 2 ^ 53 - 1"
  shows "\<exists>h. createHeader width height encoding = Inr h"
  using assms
  by (auto simp: createHeader_def fileByteSize_def new_Uint8Array_def Let_def)

lemma createHeader_Inl:
  "createHeader width height encoding = Inl e \<Longrightarrow> e = RangeError"
  by (auto simp: createHeader_def new_Uint8Array_def Let_def split: if_splits)

lemma length_createHeader:
  "createHeader width height encoding = Inr h \<Longrightarrow>
     int (length (h_bytes h)) = fileByteSize width height encoding"
  using createHeader_Inr(1,3) [of width height encoding h] by simp

section \<open>The 16-bit and 24-bit encoders\<close>

lemma fillColorData_16_throws: "fillColorData_16 bs clArray = Inl TypeError"
  by (simp add: fillColorData_16_def assign_const_def)

lemma fillColorData_24_throws: "fillColorData_24 bs = Inl TypeError"
  by (simp add: fillColorData_24_def assign_const_def)

lemma switch_encoding_default:
  "encoding \<notin> {1, 4, 8} \<Longrightarrow>
     switch_encoding encoding bs clArray paletteSize rowSize delta = Inl TypeError"
  by (simp add: switch_encoding_def fillColorData_16_throws fillColorData_24_throws)

text \<open>
  Claim C10. At depth 16 and at depth 24 the selected pixel encoder raises an error
  before it stores any pixel byte: both open with an assignment to the constant
  \<open>FILE_HEADER_SIZE\<close>, which throws \<open>TypeError\<close>; the loop of the 24-bit encoder would
  moreover store through the undeclared identifier \<open>bytes\<close> (a \<open>ReferenceError\<close> on its
  first iteration). So \<open>saveAsBMP\<close> ends in an error at these depths, the \<open>RangeError\<close>
  of the allocation or else this \<open>TypeError\<close>, and never returns a buffer.
\<close>

theorem depth_16_24_encoder_throws:
  assumes "encoding = 16 \<or> encoding = 24"
  shows "fillColorData_16 bs clArray = Inl TypeError
       \<and> fillColorData_24 bs = Inl TypeError
       \<and> (bs \<noteq> [] \<longrightarrow> fillColorData_24_loop k bs = Inl ReferenceError)
       \<and> saveAsBMP clArray width height encoding palette =
           (case createHeader width height encoding of
              Inl e \<Rightarrow> Inl e
            | Inr h \<Rightarrow> Inl TypeError)
       \<and> (\<forall>out. saveAsBMP clArray width height encoding palette \<noteq> Inr out)"
  using assms
  by (auto simp: saveAsBMP_def Let_def switch_encoding_default fillColorData_16_throws
      fillColorData_24_throws fillColorData_24_loop_def split: sum.splits)

theorem depth_16_24_encoder_throws_witness:
  "saveAsBMP [1, 2] 1 2 16 [] = Inl TypeError"
  using depth_16_24_encoder_throws [of 16 "[]" "[1, 2]" 0 1 2 "[]"]
  by (simp add: createHeader_def new_Uint8Array_def getPixelBytes_def getPaletteBytes_def
      js_rem_def Let_def consts_defs)

section \<open>Frame and length of the palette writer and of the encoders for depths 1, 4, 8\<close>

declare fillColorData_1_loop.simps [simp del]
declare fillColorData_4_loop.simps [simp del]
declare fillColorData_8_loop.simps [simp del]

lemma length_fillPalette_loop [simp]: "length (fillPalette_loop bs k ps) = length bs"
  by (induction ps arbitrary: bs k) auto

lemma fillPalette_loop_frame:
  "int p < k \<Longrightarrow> fillPalette_loop bs k ps ! p = bs ! p"
  by (induction ps arbitrary: bs k) (auto simp: u8_set_nth_other)

lemma length_fillColorData_1_loop [simp]:
  "length (fillColorData_1_loop clArray rowSize delta deltaRow i k i_row i0 bs) = length bs"
  by (induction clArray rowSize delta deltaRow i k i_row i0 bs rule: fillColorData_1_loop.induct)
     (subst fillColorData_1_loop.simps, simp)

lemma length_fillColorData_4_loop [simp]:
  "length (fillColorData_4_loop clArray rowSize delta deltaRow i k i_row i0 bs) = length bs"
  by (induction clArray rowSize delta deltaRow i k i_row i0 bs rule: fillColorData_4_loop.induct)
     (subst fillColorData_4_loop.simps, simp)

lemma length_fillColorData_8_loop [simp]:
  "length (fillColorData_8_loop clArray rowSize delta i k i_row i_active bs) = length bs"
  by (induction clArray rowSize delta i k i_row i_active bs rule: fillColorData_8_loop.induct)
     (subst fillColorData_8_loop.simps, simp)

lemma fillColorData_1_loop_frame:
  "0 \<le> delta \<Longrightarrow> int p < k \<Longrightarrow>
     fillColorData_1_loop clArray rowSize delta deltaRow i k i_row i0 bs ! p = bs ! p"
  by (induction clArray rowSize delta deltaRow i k i_row i0 bs rule: fillColorData_1_loop.induct)
     (subst fillColorData_1_loop.simps, simp add: u8_set_val_nth_other)

lemma fillColorData_4_loop_frame:
  "0 \<le> delta \<Longrightarrow> int p < k \<Longrightarrow>
     fillColorData_4_loop clArray rowSize delta deltaRow i k i_row i0 bs ! p = bs ! p"
  by (induction clArray rowSize delta deltaRow i k i_row i0 bs rule: fillColorData_4_loop.induct)
     (subst fillColorData_4_loop.simps, simp add: u8_set_nth_other)

lemma fillColorData_8_loop_frame:
  "0 \<le> delta \<Longrightarrow> int p < k \<Longrightarrow>
     fillColorData_8_loop clArray rowSize delta i k i_row i_active bs ! p = bs ! p"
  by (induction clArray rowSize delta i k i_row i_active bs rule: fillColorData_8_loop.induct)
     (subst fillColorData_8_loop.simps, simp add: u8_set_val_nth_other)

lemma switch_encoding_148:
  assumes "encoding \<in> {1, 4, 8}"
  shows "\<exists>out. switch_encoding encoding bs clArray paletteSize rowSize delta = Inr out
           \<and> length out = length bs
           \<and> (0 \<le> delta \<longrightarrow> (\<forall>p. int p < FILE_HEADER_SIZE + IMG_HEADER_SIZE + paletteSize \<longrightarrow> out ! p = bs ! p))"
  using assms
  by (auto simp: switch_encoding_def fillColorData_1_def fillColorData_4_def fillColorData_8_def
        Let_def fillColorData_1_loop_frame fillColorData_4_loop_frame fillColorData_8_loop_frame)

lemma saveAsBMP_148:
  assumes "encoding \<in> {1, 4, 8}" and "createHeader width height encoding = Inr h"
  shows "\<exists>out. saveAsBMP clArray width height encoding palette = Inr out
           \<and> int (length out) = fileByteSize width height encoding
           \<and> (\<forall>p. int p < FILE_HEADER_SIZE + IMG_HEADER_SIZE \<longrightarrow> out ! p = h_bytes h ! p)"
proof -
  define paletteSize where "paletteSize = int (length palette) * PALETTE_BYTE_SIZE"
  define bytes1 where
    "bytes1 = (if paletteSize > 0 then fillPalette (h_bytes h) palette else h_bytes h)"
  have ps: "0 \<le> paletteSize" by (simp add: paletteSize_def PALETTE_BYTE_SIZE_def)
  have len1: "length bytes1 = length (h_bytes h)"
    by (simp add: bytes1_def fillPalette_def)
  have fr1: "int p < FILE_HEADER_SIZE + IMG_HEADER_SIZE \<Longrightarrow> bytes1 ! p = h_bytes h ! p" for p
    by (simp add: bytes1_def fillPalette_def fillPalette_loop_frame)
  have d0: "0 \<le> h_deltaBase h"
    using createHeader_Inr(5) [OF assms(2)] deltaBase_range(1) by simp
  from switch_encoding_148 [OF assms(1), of bytes1 clArray paletteSize "h_rowSizeBase h" "h_deltaBase h"]
  obtain out where out: "switch_encoding encoding bytes1 clArray paletteSize (h_rowSizeBase h) (h_deltaBase h) = Inr out"
    "length out = length bytes1"
    "\<forall>p. int p < FILE_HEADER_SIZE + IMG_HEADER_SIZE + paletteSize \<longrightarrow> out ! p = bytes1 ! p"
    using d0 by blast
  have s: "saveAsBMP clArray width height encoding palette = Inr out"
    using out(1) assms(2) by (simp add: saveAsBMP_def Let_def paletteSize_def bytes1_def)
  have "\<forall>p. int p < FILE_HEADER_SIZE + IMG_HEADER_SIZE \<longrightarrow> out ! p = h_bytes h ! p"
    using out(3) fr1 ps by auto
  with s out(2) len1 length_createHeader [OF assms(2)] show ?thesis by simp
qed

lemma saveAsBMP_Inr_148:
  "saveAsBMP clArray width height encoding palette = Inr out \<Longrightarrow> encoding \<in> {1, 4, 8}"
proof (rule ccontr)
  assume a: "saveAsBMP clArray width height encoding palette = Inr out"
    and n: "encoding \<notin> {1, 4, 8}"
  from a show False
    by (simp add: saveAsBMP_def Let_def switch_encoding_default [OF n] split: sum.splits)
qed

lemma saveAsBMP_Inr_createHeader:
  "saveAsBMP clArray width height encoding palette = Inr out \<Longrightarrow> \<exists>h. createHeader width height encoding = Inr h"
  by (auto simp: saveAsBMP_def split: sum.splits)

lemma saveAsBMP_Inl:
  "saveAsBMP clArray width height encoding palette = Inl e \<Longrightarrow> e = RangeError \<or> e = TypeError"
proof (cases "createHeader width height encoding")
  case (Inl a)
  assume "saveAsBMP clArray width height encoding palette = Inl e"
  with Inl createHeader_Inl [OF Inl] show ?thesis by (simp add: saveAsBMP_def)
next
  case (Inr h)
  assume a: "saveAsBMP clArray width height encoding palette = Inl e"
  show ?thesis
  proof (cases "encoding \<in> {1, 4, 8}")
    case True
    from saveAsBMP_148 [OF True Inr, of clArray palette] a show ?thesis by auto
  next
    case False
    with a Inr show ?thesis by (simp add: saveAsBMP_def Let_def switch_encoding_default)
  qed
qed

section \<open>Evaluation on concrete inputs\<close>

lemmas eval_defs = saveAsBMP_def createHeader_def new_Uint8Array_def getPixelBytes_def
  getPaletteBytes_def Math_round_div_def js_rem_def Let_def consts_defs switch_encoding_def
  fillColorData_1_def fillColorData_4_def fillColorData_8_def
  fillColorData_1_loop.simps fillColorData_4_loop.simps fillColorData_8_loop.simps
  fillPalette_def header_stores_def paletteItems_def split2bytes_def
  u8_set_def u8_set_val_def pack_1_def pack_4_def js_get_def js_plus_def ToInt32_def
  shl32_def sar32_def and32_def or32_def int32_def

section \<open>Size of the produced buffer\<close>

lemma getPaletteBytes_paletteItems:
  "getPaletteBytes encoding = paletteItems encoding * PALETTE_BYTE_SIZE"
  by (simp add: getPaletteBytes_def paletteItems_def PALETTE_BYTE_SIZE_def Let_def)



section \<open>Validation of the palette and of the depth\<close>

text \<open>
  Claim C7, as stated: a call whose palette length differs from the depth's cardinality
  fails with \<open>PaletteSizeMismatch\<close>, before allocation. The code has no such check:
  at depth 1 with an empty palette the call returns a complete buffer (with the pixel
  byte at offset 54, where the palette would start).
\<close>

theorem palette_mismatch_returns_buffer:
  "saveAsBMP [1, 0, 0, 0, 0, 0, 0, 1] 8 1 1 [] =
     Inr [66, 77, 66, 0, 0, 0, 0, 0, 0, 0, 62, 0, 0, 0, 40, 0, 0, 0, 8, 0, 0, 0,
      1, 0, 0, 0, 1, 0, 1, 0, 0, 0, 0, 0, 0, 0, 0, 0, 194, 30, 0, 0, 194,
      30, 0, 0, 2, 0, 0, 0, 0, 0, 0, 0, 129, 0, 0, 0, 0, 0, 0, 0, 0, 0, 0, 0]"
  by (simp add: eval_defs numeral_eq_Suc)

text \<open>
  Claim C7, amended. \<open>saveAsBMP\<close> does not compare the palette length with the depth and
  never fails with \<open>PaletteSizeMismatch\<close>; at depths 1, 4 and 8, whatever the palette
  length, it returns a buffer of the size fixed by width, height and depth whenever that
  size can be allocated.
\<close>

theorem no_palette_size_check:
  "saveAsBMP clArray width height encoding palette \<noteq> Inl PaletteSizeMismatch
   \<and> (encoding \<in> {1, 4, 8} \<and> 0 \<le> fileByteSize width height encoding
        \<and> fileByteSize width height encoding \<le> 2 ^ 53 - 1 \<longrightarrow>
       (\<exists>out. saveAsBMP clArray width height encoding palette = Inr out
              \<and> int (length out) = fileByteSize width height encoding))"
proof
  show "saveAsBMP clArray width height encoding palette \<noteq> Inl PaletteSizeMismatch"
    using saveAsBMP_Inl [of clArray width height encoding palette PaletteSizeMismatch] by auto
next
  show "encoding \<in> {1, 4, 8} \<and> 0 \<le> fileByteSize width height encoding
        \<and> fileByteSize width height encoding \<le> 2 ^ 53 - 1 \<longrightarrow>
       (\<exists>out. saveAsBMP clArray width height encoding palette = Inr out
              \<and> int (length out) = fileByteSize width height encoding)"
  proof
    assume a: "encoding \<in> {1, 4, 8} \<and> 0 \<le> fileByteSize width height encoding
        \<and> fileByteSize width height encoding \<le> 2 ^ 53 - 1"
    then obtain h where h: "createHeader width height encoding = Inr h"
      using createHeader_total [of width height encoding] by blast
    from saveAsBMP_148 [of encoding width height h clArray palette] a h
    show "\<exists>out. saveAsBMP clArray width height encoding palette = Inr out
              \<and> int (length out) = fileByteSize width height encoding" by blast
  qed
qed

theorem no_palette_size_check_witness:
  "\<exists>out. saveAsBMP [0, 1, 2, 3] 4 1 4 [\<lparr>R = 1, G = 2, B = 3\<rparr>] = Inr out \<and> length out = 122"
  using no_palette_size_check [of "[0, 1, 2, 3]" 4 1 4 "[\<lparr>R = 1, G = 2, B = 3\<rparr>]"]
  by (simp add: fileByteSize_def getPixelBytes_def getPaletteBytes_def
      Math_round_div_def js_rem_def Let_def consts_defs)

text \<open>
  Claim C6, as stated: a depth outside 1, 4, 8, 16, 24 fails with \<open>UnsupportedDepth\<close>
  before any allocation. At depth 2 \<open>createHeader\<close> allocates the 58-byte buffer of a 1 \<times> 1
  image at 3 bytes per pixel and stores the depth 2 at offset 28; the error that ends the
  call is the \<open>TypeError\<close> of the 24-bit encoder.
\<close>

theorem depth_2_allocates_then_TypeError:
  "saveAsBMP [7] 1 1 2 [] = Inl TypeError
   \<and> \<not> isl (createHeader 1 1 2)
   \<and> length (h_bytes (projr (createHeader 1 1 2))) = 58
   \<and> h_bytes (projr (createHeader 1 1 2)) ! 28 = 2"
  by (simp add: eval_defs fillColorData_24_throws numeral_eq_Suc)

text \<open>
  Claim C6, amended. For every depth outside 1, 4, 8, 16, 24 the code makes no depth
  check and does not fail with \<open>UnsupportedDepth\<close>: \<open>getPixelBytes\<close> takes 3 \<times> width bytes
  per row (4 \<times> width at depth 32), there is no palette region, \<open>createHeader\<close> allocates
  the buffer of that size, and the dispatch on the depth takes the branch of depth 24.
\<close>

theorem unsupported_depth_takes_default_branch:
  assumes "encoding \<notin> {1, 4, 8, 16, 24}"
  shows "saveAsBMP clArray width height encoding palette \<noteq> Inl UnsupportedDepth
     \<and> rowSizeBase (getPixelBytes width height encoding)
         = (if encoding = 32 then 4 * width else 3 * width)
     \<and> getPaletteBytes encoding = 0
     \<and> (0 \<le> fileByteSize width height encoding
         \<and> fileByteSize width height encoding \<le> 2 ^ 53 - 1 \<longrightarrow>
        (\<exists>h. createHeader width height encoding = Inr h
            \<and> int (length (h_bytes h)) = fileByteSize width height encoding))
     \<and> switch_encoding encoding bs clArray paletteSize rowSize delta
         = switch_encoding 24 bs clArray paletteSize rowSize delta"
proof -
  have 1: "saveAsBMP clArray width height encoding palette \<noteq> Inl UnsupportedDepth"
    using saveAsBMP_Inl [of clArray width height encoding palette UnsupportedDepth] by auto
  have 2: "rowSizeBase (getPixelBytes width height encoding)
         = (if encoding = 32 then 4 * width else 3 * width)"
    using assms by (simp add: getPixelBytes_def Let_def)
  have 3: "getPaletteBytes encoding = 0"
    using assms by (simp add: getPaletteBytes_def)
  have 4: "0 \<le> fileByteSize width height encoding
         \<and> fileByteSize width height encoding \<le> 2 ^ 53 - 1 \<longrightarrow>
        (\<exists>h. createHeader width height encoding = Inr h
            \<and> int (length (h_bytes h)) = fileByteSize width height encoding)"
    using createHeader_total [of width height encoding] length_createHeader by blast
  have 5: "switch_encoding encoding bs clArray paletteSize rowSize delta
         = switch_encoding 24 bs clArray paletteSize rowSize delta"
    using assms by (simp add: switch_encoding_def)
  show ?thesis using 1 2 3 4 5 by blast
qed

theorem unsupported_depth_witness:
  "rowSizeBase (getPixelBytes 5 1 32) = 20
   \<and> (\<exists>h. createHeader 5 1 32 = Inr h \<and> length (h_bytes h) = 74)"
  using unsupported_depth_takes_default_branch [of 32 "[]" 5 1 "[]" "[]" 0 0 0]
  by (simp add: fileByteSize_def getPixelBytes_def getPaletteBytes_def
      Math_round_div_def js_rem_def Let_def consts_defs)

section \<open>Row size at depth 1\<close>

text \<open>
  Claim C3 (unpadded row size = ceiling of bits-per-pixel \<times> width / 8). At depth 1 the
  code rounds \<open>width / 8\<close> to the nearest integer instead of up: for width 9 it returns
  1 byte per row, where 9 bits need 2.
\<close>

theorem rowSizeBase_1bit_width_9:
  "rowSizeBase (getPixelBytes 9 1 1) = 1
   \<and> rowSizeBase (getPixelBytes 9 1 1) < (1 * 9 + 7) div 8"
  by (simp add: getPixelBytes_def Let_def Math_round_div_def)

section \<open>split2bytes yields the four little-endian bytes\<close>

lemma and32_255: "and32 x 255 = take_bit 8 x"
proof -
  have m: "(255::int) = mask 8" by (simp add: mask_eq_exp_minus_1)
  have "int32 255 = 255" by (simp add: int32_def)
  moreover have "int32 x AND 255 = take_bit 8 x"
    unfolding m int32_def by (rule bit_eqI) (auto simp: bit_simps min_def)
  ultimately show ?thesis by (simp add: and32_def)
qed

lemma split2bytes_bytes:
  "split2bytes v = [take_bit 8 v, take_bit 8 (drop_bit 8 v), take_bit 8 (drop_bit 16 v),
                    take_bit 8 (drop_bit 24 v)]"
proof -
  have 1: "take_bit 8 (sar32 v 8) = take_bit 8 (drop_bit 8 v)"
    unfolding sar32_def int32_def by (rule bit_eqI) (auto simp: bit_simps min_def)
  have 2: "take_bit 8 (sar32 (sar32 v 8) 8) = take_bit 8 (drop_bit 16 v)"
    unfolding sar32_def int32_def by (rule bit_eqI) (auto simp: bit_simps min_def)
  have 3: "take_bit 8 (sar32 (sar32 (sar32 v 8) 8) 8) = take_bit 8 (drop_bit 24 v)"
    unfolding sar32_def int32_def
    apply (rule bit_eqI)
    apply (auto simp: bit_simps min_def)
    subgoal for n by (cases "n = 7") auto
    subgoal for n by (cases "n = 7") auto
    done
  show ?thesis
    by (simp add: split2bytes_def Let_def and32_255 1 2 3)
qed

lemma le_bytes_32:
  fixes v :: int
  assumes "0 \<le> v" "v < 2 ^ 32"
  shows "take_bit 8 v + 256 * take_bit 8 (drop_bit 8 v) + 65536 * take_bit 8 (drop_bit 16 v)
          + 16777216 * take_bit 8 (drop_bit 24 v) = v"
proof -
  define a where "a = v div 256"
  define b where "b = a div 256"
  define c where "c = b div 256"
  have v: "v = v mod 256 + 256 * a" by (simp add: a_def)
  have a: "a = a mod 256 + 256 * b" by (simp add: b_def)
  have b: "b = b mod 256 + 256 * c" by (simp add: c_def)
  have b': "v div 65536 = b" unfolding b_def a_def by (simp add: zdiv_zmult2_eq [symmetric])
  have c': "v div 16777216 = c" unfolding c_def b_def a_def by (simp add: zdiv_zmult2_eq [symmetric])
  have m0: "0 \<le> v mod 256" "0 \<le> a mod 256" "0 \<le> b mod 256" by simp_all
  have "0 \<le> c" using assms(1) unfolding c'[symmetric] by (simp add: pos_imp_zdiv_nonneg_iff)
  moreover have "c < 256" using assms(2) unfolding c'[symmetric] by (simp add: zdiv_zmult2_eq div_less_iff_less_mult)
  ultimately have c: "c mod 256 = c" by simp
  have "v mod 256 + 256 * (a mod 256) + 65536 * (b mod 256) + 16777216 * (c mod 256) = v"
    unfolding c using v a b by linarith
  then show ?thesis
    by (simp add: take_bit_eq_mod drop_bit_eq_div a_def [symmetric] b' c')
qed

section \<open>The header bytes of the buffer\<close>

lemma header_stores_fst:
  "map fst (header_stores fileSize headerSize width height encoding) = map int [0..<54]"
  by (simp add: header_stores_def Let_def upt_rec)

lemma header_byte:
  assumes "createHeader width height encoding = Inr h"
    and "54 \<le> fileByteSize width height encoding" and "p < 54"
  shows "h_bytes h ! p =
           snd (header_stores (fileByteSize width height encoding)
                  (FILE_HEADER_SIZE + IMG_HEADER_SIZE + getPaletteBytes encoding)
                  width height encoding ! p) mod 256"
proof -
  let ?st = "header_stores (fileByteSize width height encoding)
                  (FILE_HEADER_SIZE + IMG_HEADER_SIZE + getPaletteBytes encoding)
                  width height encoding"
  have len: "length ?st = 54"
    using arg_cong [OF header_stores_fst, of length] by simp
  have "fst (?st ! p) = map fst ?st ! p" using len assms(3) by simp
  also have "\<dots> = int p" unfolding header_stores_fst using assms(3) by simp
  finally have f: "fst (?st ! p) = int p" .
  have d: "distinct (map fst ?st)"
    unfolding header_stores_fst by (simp add: distinct_map)
  have m: "(int p, snd (?st ! p)) \<in> set ?st"
    using f len assms(3) by (metis nth_mem prod.collapse)
  have l: "p < length (replicate (nat (fileByteSize width height encoding)) (0::int))"
    using assms(2,3) by simp
  show ?thesis
    unfolding createHeader_Inr(3) [OF assms(1)]
    by (rule u8_set_all_nth [OF d m l])
qed

lemma saveAsBMP_header_byte:
  assumes "saveAsBMP clArray width height encoding palette = Inr out"
    and "54 \<le> fileByteSize width height encoding" and "p < 54"
  shows "out ! p =
           snd (header_stores (fileByteSize width height encoding)
                  (FILE_HEADER_SIZE + IMG_HEADER_SIZE + getPaletteBytes encoding)
                  width height encoding ! p) mod 256"
proof -
  from saveAsBMP_Inr_createHeader [OF assms(1)] obtain h
    where h: "createHeader width height encoding = Inr h" by blast
  from saveAsBMP_148 [OF saveAsBMP_Inr_148 [OF assms(1)] h, of clArray palette] assms(1)
  have "out ! p = h_bytes h ! p" using assms(3) by (auto simp: consts_defs)
  with header_byte [OF h assms(2,3)] show ?thesis by simp
qed

lemma fileByteSize_ge_54:
  "0 \<le> width \<Longrightarrow> 0 \<le> height \<Longrightarrow> 54 \<le> fileByteSize width height encoding"
  using pixelSize_nonneg [of width height encoding]
  by (simp add: fileByteSize_def getPaletteBytes_def consts_defs)

lemma take_bit_8_mod: "take_bit 8 (x::int) mod 256 = take_bit 8 x"
  by (simp add: take_bit_eq_mod)

lemma le32_split2bytes:
  assumes "0 \<le> v" "v < 2 ^ 32"
    and "bs ! off = (split2bytes v ! 0) mod 256"
    and "bs ! (off + 1) = (split2bytes v ! 1) mod 256"
    and "bs ! (off + 2) = (split2bytes v ! 2) mod 256"
    and "bs ! (off + 3) = (split2bytes v ! 3) mod 256"
  shows "le32 bs off = v"
  unfolding le32_def assms(3-6) split2bytes_bytes
  using le_bytes_32 [OF assms(1,2)] by (simp add: take_bit_8_mod)

lemma saveAsBMP_header_fields:
  assumes out: "saveAsBMP clArray width height encoding palette = Inr out"
    and w: "0 \<le> width" "width < 2 ^ 32" and h: "0 \<le> height" "height < 2 ^ 32"
    and f: "fileByteSize width height encoding < 2 ^ 32"
  shows "out ! 0 = 66" "out ! 1 = 77"
    "le32 out 2 = fileByteSize width height encoding"
    "le32 out 10 = FILE_HEADER_SIZE + IMG_HEADER_SIZE + getPaletteBytes encoding"
    "le32 out 14 = 40" "le32 out 18 = width" "le32 out 22 = height"
    "le16 out 26 = 1" "le16 out 28 = encoding" "le32 out 30 = 0"
    "le32 out 38 = 7874" "le32 out 42 = 7874"
proof -
  have g: "54 \<le> fileByteSize width height encoding"
    using w(1) h(1) by (rule fileByteSize_ge_54)
  note hb = saveAsBMP_header_byte [OF out g]
  have e: "encoding \<in> {1, 4, 8}" using out by (rule saveAsBMP_Inr_148)
  have hs: "0 \<le> FILE_HEADER_SIZE + IMG_HEADER_SIZE + getPaletteBytes encoding"
    "FILE_HEADER_SIZE + IMG_HEADER_SIZE + getPaletteBytes encoding < 2 ^ 32"
    by (simp_all add: getPaletteBytes_def consts_defs)
  show "out ! 0 = 66" by (simp add: hb header_stores_def Let_def consts_defs)
  show "out ! 1 = 77" by (simp add: hb header_stores_def Let_def consts_defs)
  show "le32 out 2 = fileByteSize width height encoding"
    using g f by (intro le32_split2bytes) (simp_all add: hb header_stores_def Let_def)
  show "le32 out 10 = FILE_HEADER_SIZE + IMG_HEADER_SIZE + getPaletteBytes encoding"
    using hs by (intro le32_split2bytes) (simp_all add: hb header_stores_def Let_def)
  show "le32 out 14 = 40" by (simp add: le32_def hb header_stores_def Let_def consts_defs)
  show "le32 out 18 = width"
    using w by (intro le32_split2bytes) (simp_all add: hb header_stores_def Let_def)
  show "le32 out 22 = height"
    using h by (intro le32_split2bytes) (simp_all add: hb header_stores_def Let_def)
  show "le16 out 26 = 1" by (simp add: le16_def hb header_stores_def Let_def consts_defs)
  show "le16 out 28 = encoding" using e by (auto simp add: le16_def hb header_stores_def Let_def consts_defs)
  show "le32 out 30 = 0" by (simp add: le32_def hb header_stores_def Let_def consts_defs)
  have r: "split2bytes 7874 = [194, 30, 0, 0]" by (simp add: split2bytes_bytes)
  show "le32 out 38 = 7874" by (simp add: le32_def hb header_stores_def Let_def consts_defs r)
  show "le32 out 42 = 7874" by (simp add: le32_def hb header_stores_def Let_def consts_defs r)
qed

text \<open>
  Claim C5, as stated: for every valid input the 4-byte fields decode back to the inputs.
  A 1-bit image 4294967296 pixels wide and 1 pixel high is a valid input (one pixel value
  per pixel, two palette entries) and its file of 536870974 bytes is produced, but the
  width field at offset 18 holds the low 32 bits of the width: it decodes to 0.
\<close>

theorem width_field_wraps_at_2_32:
  "int (length (replicate 4294967296 (0::int))) = 4294967296 * 1
   \<and> \<not> isl (saveAsBMP (replicate 4294967296 0) 4294967296 1 1
               [\<lparr>R = 0, G = 0, B = 0\<rparr>, \<lparr>R = 255, G = 255, B = 255\<rparr>])
   \<and> le32 (projr (saveAsBMP (replicate 4294967296 0) 4294967296 1 1
               [\<lparr>R = 0, G = 0, B = 0\<rparr>, \<lparr>R = 255, G = 255, B = 255\<rparr>])) 18 = 0"
proof -
  let ?pal = "[\<lparr>R = 0, G = 0, B = 0\<rparr>, \<lparr>R = 255, G = 255, B = 255\<rparr>]"
  have fs: "fileByteSize 4294967296 1 1 = 536870974"
    by (simp add: fileByteSize_def getPixelBytes_def getPaletteBytes_def Math_round_div_def
        js_rem_def Let_def consts_defs)
  obtain h where h: "createHeader 4294967296 1 1 = Inr h"
    using createHeader_total [of 4294967296 1 1] by (auto simp: fs)
  from saveAsBMP_148 [of 1 4294967296 1 h "replicate 4294967296 0" ?pal] h
  obtain out where out: "saveAsBMP (replicate 4294967296 0) 4294967296 1 1 ?pal = Inr out"
    by auto
  have g: "54 \<le> fileByteSize 4294967296 1 1" by (simp add: fs)
  note hb = saveAsBMP_header_byte [OF out g]
  have s: "split2bytes 4294967296 = [0, 0, 0, 0]" by (simp add: split2bytes_bytes)
  have "le32 out 18 = 0"
    by (simp add: le32_def hb header_stores_def Let_def s)
  then show ?thesis by (simp add: out)
qed

text \<open>
  Claim C5, amended. For every valid input whose width, height and file size are below
  \<open>2^32\<close>, every buffer \<open>saveAsBMP\<close> produces (it produces one at depths 1, 4 and 8)
  starts with the bytes 0x42 0x4D, and its little-endian fields decode to: the file size
  at offset 2, the pixel-data offset (54 + palette bytes of the depth) at 10, 40 at 14,
  the width at 18, the height at 22, 1 at 26, the depth at 28, 0 at 30, and 7874 at 38
  and at 42.
\<close>

theorem header_fields_decode:
  assumes "0 < width" and "0 < height" and "encoding \<in> {1, 4, 8, 16, 24}"
    and "int (length palette) = paletteItems encoding"
    and "int (length clArray) = width * height"
    and "width < 2 ^ 32" and "height < 2 ^ 32"
    and "fileByteSize width height encoding < 2 ^ 32"
  shows "(encoding \<in> {1, 4, 8} \<longrightarrow>
            (\<exists>out. saveAsBMP clArray width height encoding palette = Inr out))
       \<and> (\<forall>out. saveAsBMP clArray width height encoding palette = Inr out \<longrightarrow>
            out ! 0 = 66 \<and> out ! 1 = 77
            \<and> le32 out 2 = fileByteSize width height encoding
            \<and> le32 out 10 = FILE_HEADER_SIZE + IMG_HEADER_SIZE + getPaletteBytes encoding
            \<and> le32 out 14 = 40 \<and> le32 out 18 = width \<and> le32 out 22 = height
            \<and> le16 out 26 = 1 \<and> le16 out 28 = encoding \<and> le32 out 30 = 0
            \<and> le32 out 38 = 7874 \<and> le32 out 42 = 7874)"
proof
  show "encoding \<in> {1, 4, 8} \<longrightarrow>
            (\<exists>out. saveAsBMP clArray width height encoding palette = Inr out)"
  proof
    assume e: "encoding \<in> {1, 4, 8}"
    have "54 \<le> fileByteSize width height encoding"
      using assms(1,2) by (simp add: fileByteSize_ge_54)
    then obtain h where h: "createHeader width height encoding = Inr h"
      using createHeader_total [of width height encoding] assms(8) by auto
    from saveAsBMP_148 [OF e h, of clArray palette]
    show "\<exists>out. saveAsBMP clArray width height encoding palette = Inr out" by blast
  qed
next
  show "\<forall>out. saveAsBMP clArray width height encoding palette = Inr out \<longrightarrow>
            out ! 0 = 66 \<and> out ! 1 = 77
            \<and> le32 out 2 = fileByteSize width height encoding
            \<and> le32 out 10 = FILE_HEADER_SIZE + IMG_HEADER_SIZE + getPaletteBytes encoding
            \<and> le32 out 14 = 40 \<and> le32 out 18 = width \<and> le32 out 22 = height
            \<and> le16 out 26 = 1 \<and> le16 out 28 = encoding \<and> le32 out 30 = 0
            \<and> le32 out 38 = 7874 \<and> le32 out 42 = 7874"
  proof (intro allI impI)
    fix out assume out: "saveAsBMP clArray width height encoding palette = Inr out"
    have w: "0 \<le> width" and h: "0 \<le> height" using assms(1,2) by simp_all
    note F = saveAsBMP_header_fields [OF out w assms(6) h assms(7,8)]
    show "out ! 0 = 66 \<and> out ! 1 = 77
            \<and> le32 out 2 = fileByteSize width height encoding
            \<and> le32 out 10 = FILE_HEADER_SIZE + IMG_HEADER_SIZE + getPaletteBytes encoding
            \<and> le32 out 14 = 40 \<and> le32 out 18 = width \<and> le32 out 22 = height
            \<and> le16 out 26 = 1 \<and> le16 out 28 = encoding \<and> le32 out 30 = 0
            \<and> le32 out 38 = 7874 \<and> le32 out 42 = 7874"
      using F by simp
  qed
qed

theorem header_fields_decode_witness:
  "\<exists>out. saveAsBMP [0, 1, 2, 3, 4, 5] 3 2 4
            (replicate 16 \<lparr>R = 9, G = 8, B = 7\<rparr>) = Inr out
         \<and> le32 out 2 = 126 \<and> le32 out 10 = 118 \<and> le32 out 18 = 3 \<and> le32 out 22 = 2
         \<and> le16 out 28 = 4"
  using header_fields_decode [of 3 2 4 "replicate 16 \<lparr>R = 9, G = 8, B = 7\<rparr>" "[0, 1, 2, 3, 4, 5]"]
  by (simp add: paletteItems_def fileByteSize_def getPixelBytes_def getPaletteBytes_def
      Math_round_div_def js_rem_def Let_def consts_defs) blast

section \<open>The palette table\<close>

lemma fillPalette_loop_nth:
  assumes "kn + 4 * length ps \<le> length bs" and "i < length ps"
  shows "fillPalette_loop bs (int kn) ps ! (kn + 4 * i) = R (ps ! i) mod 256
       \<and> fillPalette_loop bs (int kn) ps ! (kn + 4 * i + 1) = G (ps ! i) mod 256
       \<and> fillPalette_loop bs (int kn) ps ! (kn + 4 * i + 2) = B (ps ! i) mod 256
       \<and> fillPalette_loop bs (int kn) ps ! (kn + 4 * i + 3) = 0"
  using assms
proof (induction ps arbitrary: bs kn i)
  case Nil
  then show ?case by simp
next
  case (Cons c ps)
  let ?bs = "u8_set (u8_set (u8_set (u8_set bs (int kn) (R c)) (int kn + 1) (G c))
                 (int kn + 2) (B c)) (int kn + 3) 0"
  have k4: "int kn + 4 = int (kn + 4)" by simp
  have step: "fillPalette_loop bs (int kn) (c # ps) = fillPalette_loop ?bs (int (kn + 4)) ps"
    by (simp only: fillPalette_loop.simps k4)
  show ?case
  proof (cases i)
    case 0
    have len: "kn + 3 < length bs" using Cons.prems(1) by simp
    have 1: "?bs ! kn = R c mod 256"
      using len by (simp add: u8_set_def)
    have 2: "?bs ! (kn + 1) = G c mod 256"
      using len by (simp add: u8_set_def nat_add_distrib)
    have 3: "?bs ! (kn + 2) = B c mod 256"
      using len by (simp add: u8_set_def nat_add_distrib)
    have 4: "?bs ! (kn + 3) = 0"
      using len by (simp add: u8_set_def nat_add_distrib)
    show ?thesis
      unfolding step using 0 1 2 3 4 by (simp add: fillPalette_loop_frame)
  next
    case (Suc j)
    have a: "(kn + 4) + 4 * length ps \<le> length ?bs" using Cons.prems(1) by simp
    have b: "j < length ps" using Cons.prems(2) Suc by simp
    from Cons.IH [OF a b] show ?thesis
      unfolding step using Suc by (simp add: add.assoc add.commute add.left_commute)
  qed
qed

lemma saveAsBMP_palette_region:
  assumes "saveAsBMP clArray width height encoding palette = Inr out"
    and "createHeader width height encoding = Inr h"
    and "p < 54 + 4 * length palette"
  shows "out ! p = fillPalette_loop (h_bytes h) (int 54) palette ! p"
proof -
  define paletteSize where "paletteSize = int (length palette) * PALETTE_BYTE_SIZE"
  define bytes1 where
    "bytes1 = (if paletteSize > 0 then fillPalette (h_bytes h) palette else h_bytes h)"
  have b1: "bytes1 = fillPalette_loop (h_bytes h) (int 54) palette"
    by (cases palette) (simp_all add: bytes1_def paletteSize_def fillPalette_def consts_defs)
  have e: "encoding \<in> {1, 4, 8}" using assms(1) by (rule saveAsBMP_Inr_148)
  have d0: "0 \<le> h_deltaBase h"
    using createHeader_Inr(5) [OF assms(2)] deltaBase_range(1) by simp
  have s: "switch_encoding encoding bytes1 clArray paletteSize (h_rowSizeBase h) (h_deltaBase h)
             = Inr out"
    using assms(1,2) by (simp add: saveAsBMP_def Let_def paletteSize_def bytes1_def)
  have "int p < FILE_HEADER_SIZE + IMG_HEADER_SIZE + paletteSize"
    using assms(3) by (simp add: paletteSize_def consts_defs)
  with switch_encoding_148 [OF e, of bytes1 clArray paletteSize "h_rowSizeBase h" "h_deltaBase h"]
    s d0 have "out ! p = bytes1 ! p" by auto
  then show ?thesis by (simp add: b1)
qed

text \<open>
  Claim C8. At every depth that requires a palette (1, 4, 8), for a valid input, the
  palette entries are serialised from byte offset 54, entry \<open>i\<close> as the four bytes
  R, G, B, 0 at offsets \<open>54 + 4i\<close> to \<open>54 + 4i + 3\<close> of the buffer \<open>saveAsBMP\<close> returns
  (and it returns one whenever the file size can be allocated).
\<close>

theorem palette_entries_at_54:
  assumes "0 < width" and "0 < height" and "encoding \<in> {1, 4, 8}"
    and "int (length palette) = paletteItems encoding"
    and "int (length clArray) = width * height"
    and "\<forall>c \<in> set palette. 0 \<le> R c \<and> R c \<le> 255 \<and> 0 \<le> G c \<and> G c \<le> 255
                          \<and> 0 \<le> B c \<and> B c \<le> 255"
  shows "(fileByteSize width height encoding \<le> 2 ^ 53 - 1 \<longrightarrow>
            (\<exists>out. saveAsBMP clArray width height encoding palette = Inr out))
       \<and> (\<forall>out i. saveAsBMP clArray width height encoding palette = Inr out
                  \<and> i < length palette \<longrightarrow>
             out ! (54 + 4 * i) = R (palette ! i)
           \<and> out ! (54 + 4 * i + 1) = G (palette ! i)
           \<and> out ! (54 + 4 * i + 2) = B (palette ! i)
           \<and> out ! (54 + 4 * i + 3) = 0)"
proof
  show "fileByteSize width height encoding \<le> 2 ^ 53 - 1 \<longrightarrow>
            (\<exists>out. saveAsBMP clArray width height encoding palette = Inr out)"
  proof
    assume f: "fileByteSize width height encoding \<le> 2 ^ 53 - 1"
    have "54 \<le> fileByteSize width height encoding"
      using assms(1,2) by (simp add: fileByteSize_ge_54)
    then obtain h where h: "createHeader width height encoding = Inr h"
      using createHeader_total [of width height encoding] f by auto
    from saveAsBMP_148 [OF assms(3) h, of clArray palette]
    show "\<exists>out. saveAsBMP clArray width height encoding palette = Inr out" by blast
  qed
next
  show "\<forall>out i. saveAsBMP clArray width height encoding palette = Inr out
                  \<and> i < length palette \<longrightarrow>
             out ! (54 + 4 * i) = R (palette ! i)
           \<and> out ! (54 + 4 * i + 1) = G (palette ! i)
           \<and> out ! (54 + 4 * i + 2) = B (palette ! i)
           \<and> out ! (54 + 4 * i + 3) = 0"
  proof (intro allI impI, elim conjE)
    fix out i
    assume out: "saveAsBMP clArray width height encoding palette = Inr out"
      and i: "i < length palette"
    from saveAsBMP_Inr_createHeader [OF out] obtain h
      where h: "createHeader width height encoding = Inr h" by blast
    have "0 \<le> pixelSize (getPixelBytes width height encoding)"
      using assms(1,2) by (simp add: pixelSize_nonneg)
    then have "54 + 4 * int (length palette) \<le> fileByteSize width height encoding"
      by (simp add: fileByteSize_def getPaletteBytes_paletteItems assms(4) consts_defs)
    then have len: "54 + 4 * length palette \<le> length (h_bytes h)"
      using length_createHeader [OF h] by linarith
    note P = fillPalette_loop_nth [OF len i]
    have c: "palette ! i \<in> set palette" using i by simp
    have r: "R (palette ! i) mod 256 = R (palette ! i)"
      "G (palette ! i) mod 256 = G (palette ! i)"
      "B (palette ! i) mod 256 = B (palette ! i)"
      using assms(6) c by auto
    have "out ! (54 + 4 * i) = R (palette ! i)"
      using saveAsBMP_palette_region [OF out h, of "54 + 4 * i"] i P r by simp
    moreover have "out ! (54 + 4 * i + 1) = G (palette ! i)"
      using saveAsBMP_palette_region [OF out h, of "54 + 4 * i + 1"] i P r by simp
    moreover have "out ! (54 + 4 * i + 2) = B (palette ! i)"
      using saveAsBMP_palette_region [OF out h, of "54 + 4 * i + 2"] i P r by simp
    moreover have "out ! (54 + 4 * i + 3) = 0"
      using saveAsBMP_palette_region [OF out h, of "54 + 4 * i + 3"] i P r by simp
    ultimately show "out ! (54 + 4 * i) = R (palette ! i)
           \<and> out ! (54 + 4 * i + 1) = G (palette ! i)
           \<and> out ! (54 + 4 * i + 2) = B (palette ! i)
           \<and> out ! (54 + 4 * i + 3) = 0" by simp
  qed
qed

theorem palette_entries_at_54_witness:
  "\<exists>out. saveAsBMP [1, 0, 0, 0, 0, 0, 0, 0] 8 1 1
            [\<lparr>R = 10, G = 20, B = 30\<rparr>, \<lparr>R = 40, G = 50, B = 60\<rparr>] = Inr out
         \<and> out ! 54 = 10 \<and> out ! 55 = 20 \<and> out ! 56 = 30 \<and> out ! 57 = 0
         \<and> out ! 58 = 40 \<and> out ! 59 = 50 \<and> out ! 60 = 60 \<and> out ! 61 = 0"
proof -
  let ?pal = "[\<lparr>R = 10, G = 20, B = 30\<rparr>, \<lparr>R = 40, G = 50, B = 60\<rparr>]"
  let ?px = "[1, 0, 0, 0, 0, 0, 0, 0] :: int list"
  have T: "(fileByteSize 8 1 1 \<le> 2 ^ 53 - 1 \<longrightarrow>
            (\<exists>out. saveAsBMP ?px 8 1 1 ?pal = Inr out))
       \<and> (\<forall>out i. saveAsBMP ?px 8 1 1 ?pal = Inr out \<and> i < length ?pal \<longrightarrow>
             out ! (54 + 4 * i) = R (?pal ! i)
           \<and> out ! (54 + 4 * i + 1) = G (?pal ! i)
           \<and> out ! (54 + 4 * i + 2) = B (?pal ! i)
           \<and> out ! (54 + 4 * i + 3) = 0)"
    by (rule palette_entries_at_54) (simp_all add: paletteItems_def)
  have f: "fileByteSize 8 1 1 \<le> 2 ^ 53 - 1"
    by (simp add: fileByteSize_def getPixelBytes_def getPaletteBytes_def
      Math_round_div_def js_rem_def Let_def consts_defs)
  from T f obtain out where out: "saveAsBMP ?px 8 1 1 ?pal = Inr out" by blast
  from T out have 0: "out ! (54 + 4 * 0) = R (?pal ! 0) \<and> out ! (54 + 4 * 0 + 1) = G (?pal ! 0)
     \<and> out ! (54 + 4 * 0 + 2) = B (?pal ! 0) \<and> out ! (54 + 4 * 0 + 3) = 0"
    by (metis length_Cons zero_less_Suc)
  have "(1::nat) < length ?pal" by simp
  with T out have 1: "out ! (54 + 4 * 1) = R (?pal ! 1) \<and> out ! (54 + 4 * 1 + 1) = G (?pal ! 1)
     \<and> out ! (54 + 4 * 1 + 2) = B (?pal ! 1) \<and> out ! (54 + 4 * 1 + 3) = 0"
    by blast
  from 0 1 out show ?thesis by simp
qed

section \<open>The 1-bit encoder\<close>

lemma int32_small: "- (2 ^ 31) \<le> a \<Longrightarrow> a < 2 ^ 31 \<Longrightarrow> int32 a = a"
  unfolding int32_def by (rule signed_take_bit_int_eq_self) simp_all

lemma shl32_small:
  assumes "0 \<le> a" and "a * 2 ^ n < 2 ^ 31"
  shows "shl32 a n = a * 2 ^ n"
proof -
  have "a * 1 \<le> a * 2 ^ n" using assms(1) by (intro mult_left_mono) simp_all
  then have a: "a < 2 ^ 31" using assms(2) by simp
  have 1: "int32 a = a" using assms(1) a by (intro int32_small) simp_all
  have 2: "0 \<le> a * 2 ^ n" using assms(1) by simp
  show ?thesis
    unfolding shl32_def 1 push_bit_eq_mult using 2 assms(2) by (intro int32_small) simp_all
qed

lemma row_bound:
  fixes r h j m :: int
  assumes "r < h" and "j < m" and "0 \<le> m"
  shows "r * m + j < h * m"
proof -
  have "(r + 1) * m \<le> h * m" using assms(1,3) by (intro mult_right_mono) simp_all
  then show ?thesis using assms(2) by (simp add: algebra_simps)
qed

lemma pack_1_bits:
  assumes "0 \<le> a" and "a + 7 < int (length clArray)"
    and "\<forall>x \<in> set clArray. x = 0 \<or> x = 1"
  shows "pack_1 clArray a = Num (msb_first_byte clArray a)"
    and "0 \<le> msb_first_byte clArray a" and "msb_first_byte clArray a \<le> 255"
proof -
  have px: "0 \<le> clArray ! nat (a + b) \<and> clArray ! nat (a + b) \<le> 1" if "0 \<le> b" "b \<le> 7" for b
  proof -
    have "nat (a + b) < length clArray" using assms(1,2) that by linarith
    then have "clArray ! nat (a + b) \<in> set clArray" by simp
    with assms(3) show ?thesis by auto
  qed
  have sh: "shl32 (ToInt32 (js_get clArray (a + b))) n = clArray ! nat (a + b) * 2 ^ n"
    if "0 \<le> b" "b \<le> 7" "n \<le> 7" for b n
  proof -
    have g: "js_get clArray (a + b) = Num (clArray ! nat (a + b))"
      using assms(1,2) that by (simp add: js_get_def)
    have "(2::int) ^ n \<le> 2 ^ 7" using that(3) by (intro power_increasing) simp_all
    then have "clArray ! nat (a + b) * 2 ^ n \<le> 1 * 2 ^ 7"
      using px [OF that(1,2)] by (intro mult_mono) simp_all
    then have lt: "clArray ! nat (a + b) * 2 ^ n < 2 ^ 31" by simp
    have i: "int32 (clArray ! nat (a + b)) = clArray ! nat (a + b)"
      using px [OF that(1,2)] by (intro int32_small) simp_all
    show ?thesis
      unfolding g ToInt32_def using px [OF that(1,2)] lt by (simp add: i shl32_small)
  qed
  have g7: "js_get clArray (a + 7) = Num (clArray ! nat (a + 7))"
    using assms(1,2) by (simp add: js_get_def)
  have s0: "shl32 (ToInt32 (js_get clArray a)) 7 = clArray ! nat a * 2 ^ 7"
    using sh [of 0 7] by simp
  show "pack_1 clArray a = Num (msb_first_byte clArray a)"
    unfolding pack_1_def g7 s0 msb_first_byte_def
    by (simp add: sh js_plus_def)
  show "0 \<le> msb_first_byte clArray a"
    unfolding msb_first_byte_def
    using px [of 0] px [of 1] px [of 2] px [of 3] px [of 4] px [of 5] px [of 6] px [of 7]
    by simp
  show "msb_first_byte clArray a \<le> 255"
    unfolding msb_first_byte_def
    using px [of 0] px [of 1] px [of 2] px [of 3] px [of 4] px [of 5] px [of 6] px [of 7]
    by simp
qed

lemma fillColorData_1_loop_content:
  fixes m delta h k0 r' j' :: int
  assumes m: "0 < m" and d: "0 \<le> delta" and L: "int (length clArray) = 8 * m * h"
    and small: "8 * m < 2 ^ 31" and k0: "0 \<le> k0"
    and tgt: "r' < h" "0 \<le> j'" "j' < m"
  shows "i = 8 * (r * m + j) \<Longrightarrow> k = k0 + r * (m + delta) + j \<Longrightarrow> i_row = j
     \<Longrightarrow> i0 = (h - 1 - r) * (8 * m)
     \<Longrightarrow> 0 \<le> r \<Longrightarrow> 0 \<le> j \<Longrightarrow> j < m \<Longrightarrow> r \<le> r' \<Longrightarrow> (r' = r \<longrightarrow> j \<le> j')
     \<Longrightarrow> k0 + h * (m + delta) \<le> int (length bs)
     \<Longrightarrow> fillColorData_1_loop clArray m delta (8 * m) i k i_row i0 bs
           ! nat (k0 + r' * (m + delta) + j')
         = (case pack_1 clArray ((h - 1 - r') * (8 * m) + 8 * j') of Num n \<Rightarrow> n | _ \<Rightarrow> 0)
             mod 256"
proof (induction "nat ((h - r) * m - j)" arbitrary: r j i k i_row i0 bs rule: less_induct)
  case less
  note i = less.prems(1) and k = less.prems(2) and i_row = less.prems(3) and i0 = less.prems(4)
    and r0 = less.prems(5) and j0 = less.prems(6) and jm = less.prems(7)
    and rr = less.prems(8) and rj = less.prems(9) and len = less.prems(10)
  have rh: "r < h" using rr tgt(1) by simp
  have md: "0 < m + delta" using m d by simp
  have "r * m + j < h * m" using rh jm m by (intro row_bound) simp_all
  then have "8 * (r * m + j) < 8 * (h * m)" by simp
  then have cond: "i < int (length clArray)"
    unfolding L i by (simp add: mult.commute mult.left_commute)
  have "j < m + delta" using jm d by simp
  then have "r * (m + delta) + j < h * (m + delta)"
    using rh md by (intro row_bound) simp_all
  then have kb: "k < int (length bs)" using len unfolding k by simp
  have "0 \<le> r * (m + delta)" using r0 md by simp
  then have kn: "0 \<le> k" unfolding k using k0 j0 by simp
  have "8 * j < 8 * m" using jm by simp
  then have sh: "shl32 i_row 3 = 8 * j"
    unfolding i_row using j0 small by (subst shl32_small) simp_all
  define bs' where "bs' = u8_set_val bs k (pack_1 clArray (shl32 i_row 3 + i0))"
  have len': "k0 + h * (m + delta) \<le> int (length bs')" using len by (simp add: bs'_def)
  have written: "bs' ! nat k
      = (case pack_1 clArray ((h - 1 - r) * (8 * m) + 8 * j) of Num n \<Rightarrow> n | _ \<Rightarrow> 0) mod 256"
    unfolding bs'_def u8_set_val_def sh i0 using kn kb
    by (simp add: u8_set_def add.commute)
  show ?case
  proof (cases "j + 1 = m")
    case True
    have unf: "fillColorData_1_loop clArray m delta (8 * m) i k i_row i0 bs
        = fillColorData_1_loop clArray m delta (8 * m) (i + 8) (k + 1 + delta) 0 (i0 - 8 * m) bs'"
      by (subst fillColorData_1_loop.simps) (simp add: cond True i_row bs'_def)
    show ?thesis
    proof (cases "r' = r")
      case rEq: True
      with rj jm tgt(3) True have jEq: "j' = j" by simp
      have "nat (k0 + r' * (m + delta) + j') = nat k" unfolding k rEq jEq ..
      moreover have "int (nat k) < k + 1 + delta" using kn d by simp
      ultimately show ?thesis
        unfolding unf using written rEq jEq d
        by (simp add: fillColorData_1_loop_frame)
    next
      case False
      then have r1: "r + 1 \<le> r'" using rr by simp
      have meas: "nat ((h - (r + 1)) * m - 0) < nat ((h - r) * m - j)"
      proof -
        have "(h - (r + 1)) * m = (h - r) * m - m" by (simp add: algebra_simps)
        moreover have "0 \<le> (h - (r + 1)) * m" using rh m by simp
        ultimately show ?thesis using jm by simp
      qed
      have a1: "i + 8 = 8 * ((r + 1) * m + 0)" unfolding i using True by (simp add: algebra_simps)
      have a2: "k + 1 + delta = k0 + (r + 1) * (m + delta) + 0"
        unfolding k using True by (simp add: algebra_simps)
      have a4: "i0 - 8 * m = (h - 1 - (r + 1)) * (8 * m)" unfolding i0 by (simp add: algebra_simps)
      have a9: "r' = r + 1 \<longrightarrow> 0 \<le> j'" using tgt(2) by simp
      have "0 \<le> r + 1" using r0 by simp
      from less.hyps [OF meas a1 a2 refl a4 this _ m r1 a9 len']
      show ?thesis unfolding unf by simp
    qed
  next
    case False
    have unf: "fillColorData_1_loop clArray m delta (8 * m) i k i_row i0 bs
        = fillColorData_1_loop clArray m delta (8 * m) (i + 8) (k + 1) (j + 1) i0 bs'"
      by (subst fillColorData_1_loop.simps) (simp add: cond False i_row bs'_def)
    show ?thesis
    proof (cases "r' = r \<and> j' = j")
      case True
      then have "nat (k0 + r' * (m + delta) + j') = nat k" unfolding k by simp
      moreover have "int (nat k) < k + 1" using kn by simp
      ultimately show ?thesis
        unfolding unf using written True d
        by (simp add: fillColorData_1_loop_frame)
    next
      case nEq: False
      have j1: "j + 1 < m" using jm False by simp
      have meas: "nat ((h - r) * m - (j + 1)) < nat ((h - r) * m - j)"
      proof -
        have "1 * m \<le> (h - r) * m" using rh m by (intro mult_right_mono) simp_all
        then show ?thesis using jm by simp
      qed
      have a1: "i + 8 = 8 * (r * m + (j + 1))" unfolding i by simp
      have a2: "k + 1 = k0 + r * (m + delta) + (j + 1)" unfolding k by simp
      have a9: "r' = r \<longrightarrow> j + 1 \<le> j'" using rj nEq by auto
      have "0 \<le> j + 1" using j0 by simp
      from less.hyps [OF meas a1 a2 refl i0 r0 this j1 rr a9 len']
      show ?thesis unfolding unf by simp
    qed
  qed
qed

lemma getPixelBytes_1bit_multiple_of_8:
  "rowSizeBase (getPixelBytes (8 * m) height 1) = m"
  by (simp add: getPixelBytes_def Let_def Math_round_div_def)

text \<open>
  Claim C2, as stated: in every 1-bit image the first pixel of a group is in the most
  significant bit, and with a width that is not a multiple of 8 the unused low bits of
  a row's last byte are 0. For the 4 \<times> 1 image of four 1-pixels the only pixel byte,
  at offset 62, is 15: the four pixels sit in the low bits 3..0, the high bits are 0, so
  the first pixel is not in bit 7 and the low four bits are not 0 (the format's byte
  would be 240).
\<close>

theorem one_bit_width_4_low_bits_set:
  "saveAsBMP [1, 1, 1, 1] 4 1 1 [\<lparr>R = 0, G = 0, B = 0\<rparr>, \<lparr>R = 255, G = 255, B = 255\<rparr>] =
     Inr [66, 77, 66, 0, 0, 0, 0, 0, 0, 0, 62, 0, 0, 0, 40, 0, 0, 0, 4, 0, 0, 0,
      1, 0, 0, 0, 1, 0, 1, 0, 0, 0, 0, 0, 0, 0, 0, 0, 194, 30, 0, 0, 194,
      30, 0, 0, 2, 0, 0, 0, 0, 0, 0, 0, 0, 0, 0, 0, 255, 255, 255, 0, 15, 0, 0, 0]"
  by (simp add: eval_defs numeral_eq_Suc)

text \<open>
  Claim C2, amended. For every 1-bit image whose width is a multiple of 8 below \<open>2^31\<close>
  (0/1 pixel values, one per pixel, two palette entries), each byte of the pixel data
  packs 8 pixels of one row, the first in the most significant bit and the eighth in the
  least significant bit: byte \<open>j\<close> of file row \<open>r\<close>, at offset
  \<open>62 + r \<times> (padded row size) + j\<close>, holds the pixels \<open>8j .. 8j + 7\<close> of the image row
  \<open>height - 1 - r\<close>. Such a row has no unused bits; nothing is said of other widths.
\<close>

theorem one_bit_rows_msb_first:
  fixes m width height :: int
  assumes "0 < m" and "width = 8 * m" and "width < 2 ^ 31" and "0 < height"
    and "int (length clArray) = width * height"
    and "\<forall>x \<in> set clArray. x = 0 \<or> x = 1"
    and "int (length palette) = paletteItems 1"
  shows "(fileByteSize width height 1 \<le> 2 ^ 53 - 1 \<longrightarrow>
            (\<exists>out. saveAsBMP clArray width height 1 palette = Inr out))
       \<and> (\<forall>out r j. saveAsBMP clArray width height 1 palette = Inr out
                    \<and> 0 \<le> r \<and> r < height \<and> 0 \<le> j \<and> j < m \<longrightarrow>
             out ! nat (62 + r * (m + deltaBase (getPixelBytes width height 1)) + j)
               = msb_first_byte clArray ((height - 1 - r) * width + 8 * j))"
proof
  show "fileByteSize width height 1 \<le> 2 ^ 53 - 1 \<longrightarrow>
            (\<exists>out. saveAsBMP clArray width height 1 palette = Inr out)"
  proof
    assume f: "fileByteSize width height 1 \<le> 2 ^ 53 - 1"
    have "54 \<le> fileByteSize width height 1"
      using assms(1,2,4) by (simp add: fileByteSize_ge_54)
    then obtain h where h: "createHeader width height 1 = Inr h"
      using createHeader_total [of width height 1] f by auto
    from saveAsBMP_148 [of 1 width height h clArray palette] h
    show "\<exists>out. saveAsBMP clArray width height 1 palette = Inr out" by auto
  qed
next
  define delta where "delta = deltaBase (getPixelBytes width height 1)"
  have d0: "0 \<le> delta" unfolding delta_def by (rule deltaBase_range(1))
  have rs: "rowSizeBase (getPixelBytes width height 1) = m"
    unfolding assms(2) by (rule getPixelBytes_1bit_multiple_of_8)
  have L: "int (length clArray) = 8 * m * height" using assms(2,5) by simp
  have small: "8 * m < 2 ^ 31" using assms(2,3) by simp
  have pl: "int (length palette) = 2" using assms(7) by (simp add: paletteItems_def)
  show "\<forall>out r j. saveAsBMP clArray width height 1 palette = Inr out
                    \<and> 0 \<le> r \<and> r < height \<and> 0 \<le> j \<and> j < m \<longrightarrow>
             out ! nat (62 + r * (m + deltaBase (getPixelBytes width height 1)) + j)
               = msb_first_byte clArray ((height - 1 - r) * width + 8 * j)"
  proof (intro allI impI, elim conjE)
    fix out r j
    assume out: "saveAsBMP clArray width height 1 palette = Inr out"
      and r: "0 \<le> r" "r < height" and j: "0 \<le> j" "j < m"
    from saveAsBMP_Inr_createHeader [OF out] obtain h
      where h: "createHeader width height 1 = Inr h" by blast
    define bytes1 where "bytes1 = fillPalette (h_bytes h) palette"
    have hr: "h_rowSizeBase h = m" "h_deltaBase h = delta"
      using createHeader_Inr(4,5) [OF h] rs by (simp_all add: delta_def)
    have o: "out = fillColorData_1_loop clArray m delta (8 * m) 0 62 0
                     ((height - 1 - 0) * (8 * m)) bytes1"
      using out h pl
      by (simp add: saveAsBMP_def switch_encoding_def fillColorData_1_def Let_def hr bytes1_def
          L consts_defs algebra_simps)
    have "fileByteSize width height 1 = 62 + height * (m + delta)"
      by (simp add: fileByteSize_def getPixelBytes_pixelSize rs delta_def getPaletteBytes_def
          consts_defs mult.commute)
    then have len: "62 + height * (m + delta) \<le> int (length bytes1)"
      using length_createHeader [OF h] by (simp add: bytes1_def fillPalette_def)
    have content: "out ! nat (62 + r * (m + delta) + j)
        = (case pack_1 clArray ((height - 1 - r) * (8 * m) + 8 * j) of Num n \<Rightarrow> n | _ \<Rightarrow> 0)
            mod 256"
      unfolding o
      using fillColorData_1_loop_content [OF assms(1) d0 L small _ r(2) j,
          where r = 0 and j = 0 and k0 = 62 and i = 0 and k = 62 and i_row = 0
            and ?i0.0 = "(height - 1 - 0) * (8 * m)" and bs = bytes1] r j assms(1) len
      by simp
    define a where "a = (height - 1 - r) * (8 * m) + 8 * j"
    have "0 \<le> (height - 1 - r) * (8 * m)" using r(2) assms(1) by simp
    then have a0: "0 \<le> a" unfolding a_def using j(1) by simp
    have "(height - 1 - r) * (8 * m) \<le> (height - 1) * (8 * m)"
      using r(1) assms(1) by (intro mult_right_mono) simp_all
    then have "a + 7 < (height - 1) * (8 * m) + 8 * m"
      unfolding a_def using j(2) by simp
    then have a7: "a + 7 < int (length clArray)"
      unfolding L by (simp add: algebra_simps)
    note P = pack_1_bits [OF a0 a7 assms(6)]
    have "out ! nat (62 + r * (m + delta) + j) = msb_first_byte clArray a"
      unfolding content a_def [symmetric] P(1) using P(2,3) by simp
    then show "out ! nat (62 + r * (m + deltaBase (getPixelBytes width height 1)) + j)
               = msb_first_byte clArray ((height - 1 - r) * width + 8 * j)"
      unfolding delta_def a_def assms(2) .
  qed
qed

theorem one_bit_rows_msb_first_witness:
  "\<exists>out. saveAsBMP [1, 0, 0, 0, 0, 0, 0, 0, 0, 1, 0, 0, 0, 0, 0, 0] 8 2 1
            [\<lparr>R = 0, G = 0, B = 0\<rparr>, \<lparr>R = 255, G = 255, B = 255\<rparr>] = Inr out
         \<and> out ! 62 = 64 \<and> out ! 66 = 128"
proof -
  let ?pal = "[\<lparr>R = 0, G = 0, B = 0\<rparr>, \<lparr>R = 255, G = 255, B = 255\<rparr>]"
  let ?px = "[1, 0, 0, 0, 0, 0, 0, 0, 0, 1, 0, 0, 0, 0, 0, 0] :: int list"
  have T: "(fileByteSize 8 2 1 \<le> 2 ^ 53 - 1 \<longrightarrow>
            (\<exists>out. saveAsBMP ?px 8 2 1 ?pal = Inr out))
       \<and> (\<forall>out r j. saveAsBMP ?px 8 2 1 ?pal = Inr out
                    \<and> 0 \<le> r \<and> r < 2 \<and> 0 \<le> j \<and> j < 1 \<longrightarrow>
             out ! nat (62 + r * (1 + deltaBase (getPixelBytes 8 2 1)) + j)
               = msb_first_byte ?px ((2 - 1 - r) * 8 + 8 * j))"
    by (rule one_bit_rows_msb_first [of 1 8 2 ?px ?pal]) (auto simp: paletteItems_def)
  have f: "fileByteSize 8 2 1 \<le> 2 ^ 53 - 1"
    by (simp add: fileByteSize_def getPixelBytes_def getPaletteBytes_def
      Math_round_div_def js_rem_def Let_def consts_defs)
  have d: "deltaBase (getPixelBytes 8 2 1) = 3"
    by (simp add: getPixelBytes_def Math_round_div_def js_rem_def Let_def)
  from T f obtain out where out: "saveAsBMP ?px 8 2 1 ?pal = Inr out" by blast
  from T out have A: "0 \<le> r \<Longrightarrow> r < 2 \<Longrightarrow> 0 \<le> j \<Longrightarrow> j < 1 \<Longrightarrow>
      out ! nat (62 + r * (1 + deltaBase (getPixelBytes 8 2 1)) + j)
        = msb_first_byte ?px ((2 - 1 - r) * 8 + 8 * j)" for r j
    by blast
  from A [of 0 0] have 0: "out ! 62 = 64" by (simp add: msb_first_byte_def)
  from A [of 1 0] have 1: "out ! 66 = 128" by (simp add: msb_first_byte_def d)
  from out 0 1 show ?thesis by simp
qed

section \<open>Row order: the 8-bit encoder against the 16-bit and 24-bit encoders\<close>

lemma fillColorData_8_loop_content:
  fixes w delta h k0 r' j' :: int
  assumes w: "0 < w" and d: "0 \<le> delta" and L: "int (length clArray) = w * h"
    and k0: "0 \<le> k0" and tgt: "r' < h" "0 \<le> j'" "j' < w"
  shows "i = r * w + j \<Longrightarrow> k = k0 + r * (w + delta) + j \<Longrightarrow> i_row = j
     \<Longrightarrow> i_active = (h - 1 - r) * w
     \<Longrightarrow> 0 \<le> r \<Longrightarrow> 0 \<le> j \<Longrightarrow> j < w \<Longrightarrow> r \<le> r' \<Longrightarrow> (r' = r \<longrightarrow> j \<le> j')
     \<Longrightarrow> k0 + h * (w + delta) \<le> int (length bs)
     \<Longrightarrow> fillColorData_8_loop clArray w delta i k i_row i_active bs
           ! nat (k0 + r' * (w + delta) + j')
         = (case js_get clArray ((h - 1 - r') * w + j') of Num n \<Rightarrow> n | _ \<Rightarrow> 0) mod 256"
proof (induction "nat ((h - r) * w - j)" arbitrary: r j i k i_row i_active bs rule: less_induct)
  case less
  note i = less.prems(1) and k = less.prems(2) and i_row = less.prems(3)
    and i_active = less.prems(4)
    and r0 = less.prems(5) and j0 = less.prems(6) and jw = less.prems(7)
    and rr = less.prems(8) and rj = less.prems(9) and len = less.prems(10)
  have rh: "r < h" using rr tgt(1) by simp
  have wd: "0 < w + delta" using w d by simp
  have "r * w + j < h * w" using rh jw w by (intro row_bound) simp_all
  then have cond: "i < int (length clArray)"
    unfolding L i by (simp add: mult.commute)
  have "j < w + delta" using jw d by simp
  then have "r * (w + delta) + j < h * (w + delta)"
    using rh wd by (intro row_bound) simp_all
  then have kb: "k < int (length bs)" using len unfolding k by simp
  have "0 \<le> r * (w + delta)" using r0 wd by simp
  then have kn: "0 \<le> k" unfolding k using k0 j0 by simp
  define bs' where "bs' = u8_set_val bs k (js_get clArray (i_active + i_row))"
  have len': "k0 + h * (w + delta) \<le> int (length bs')" using len by (simp add: bs'_def)
  have written: "bs' ! nat k
      = (case js_get clArray ((h - 1 - r) * w + j) of Num n \<Rightarrow> n | _ \<Rightarrow> 0) mod 256"
    unfolding bs'_def u8_set_val_def i_active i_row using kn kb
    by (simp add: u8_set_def)
  show ?case
  proof (cases "j + 1 = w")
    case True
    have unf: "fillColorData_8_loop clArray w delta i k i_row i_active bs
        = fillColorData_8_loop clArray w delta (i + 1) (k + 1 + delta) 0 (i_active - w) bs'"
      by (subst fillColorData_8_loop.simps) (simp add: cond True i_row bs'_def)
    show ?thesis
    proof (cases "r' = r")
      case rEq: True
      with rj jw tgt(3) True have jEq: "j' = j" by simp
      have "nat (k0 + r' * (w + delta) + j') = nat k" unfolding k rEq jEq ..
      moreover have "int (nat k) < k + 1 + delta" using kn d by simp
      ultimately show ?thesis
        unfolding unf using written rEq jEq d
        by (simp add: fillColorData_8_loop_frame)
    next
      case False
      then have r1: "r + 1 \<le> r'" using rr by simp
      have meas: "nat ((h - (r + 1)) * w - 0) < nat ((h - r) * w - j)"
      proof -
        have "(h - (r + 1)) * w = (h - r) * w - w" by (simp add: algebra_simps)
        moreover have "0 \<le> (h - (r + 1)) * w" using rh w by simp
        ultimately show ?thesis using jw by simp
      qed
      have a1: "i + 1 = (r + 1) * w + 0" unfolding i using True by (simp add: algebra_simps)
      have a2: "k + 1 + delta = k0 + (r + 1) * (w + delta) + 0"
        unfolding k using True by (simp add: algebra_simps)
      have a4: "i_active - w = (h - 1 - (r + 1)) * w"
        unfolding i_active by (simp add: algebra_simps)
      have a9: "r' = r + 1 \<longrightarrow> 0 \<le> j'" using tgt(2) by simp
      have "0 \<le> r + 1" using r0 by simp
      from less.hyps [OF meas a1 a2 refl a4 this _ w r1 a9 len']
      show ?thesis unfolding unf by simp
    qed
  next
    case False
    have unf: "fillColorData_8_loop clArray w delta i k i_row i_active bs
        = fillColorData_8_loop clArray w delta (i + 1) (k + 1) (j + 1) i_active bs'"
      by (subst fillColorData_8_loop.simps) (simp add: cond False i_row bs'_def)
    show ?thesis
    proof (cases "r' = r \<and> j' = j")
      case True
      then have "nat (k0 + r' * (w + delta) + j') = nat k" unfolding k by simp
      moreover have "int (nat k) < k + 1" using kn by simp
      ultimately show ?thesis
        unfolding unf using written True d
        by (simp add: fillColorData_8_loop_frame)
    next
      case nEq: False
      have j1: "j + 1 < w" using jw False by simp
      have meas: "nat ((h - r) * w - (j + 1)) < nat ((h - r) * w - j)"
      proof -
        have "1 * w \<le> (h - r) * w" using rh w by (intro mult_right_mono) simp_all
        then show ?thesis using jw by simp
      qed
      have a1: "i + 1 = r * w + (j + 1)" unfolding i by simp
      have a2: "k + 1 = k0 + r * (w + delta) + (j + 1)" unfolding k by simp
      have a9: "r' = r \<longrightarrow> j + 1 \<le> j'" using rj nEq by auto
      have "0 \<le> j + 1" using j0 by simp
      from less.hyps [OF meas a1 a2 refl i_active r0 this j1 rr a9 len']
      show ?thesis unfolding unf by simp
    qed
  qed
qed

lemma eight_bit_rows_bottom_up:
  fixes width height :: int
  assumes "0 < width" and "0 < height"
    and "int (length clArray) = width * height"
    and "int (length palette) = paletteItems 8"
    and out: "saveAsBMP clArray width height 8 palette = Inr out"
    and r: "0 \<le> r" "r < height" and j: "0 \<le> j" "j < width"
  shows "out ! nat (1078 + r * (width + deltaBase (getPixelBytes width height 8)) + j)
           = clArray ! nat ((height - 1 - r) * width + j) mod 256"
proof -
  define delta where "delta = deltaBase (getPixelBytes width height 8)"
  have d0: "0 \<le> delta" unfolding delta_def by (rule deltaBase_range(1))
  have rs: "rowSizeBase (getPixelBytes width height 8) = width"
    by (simp add: getPixelBytes_def Let_def)
  have pl: "int (length palette) = 256" using assms(4) by (simp add: paletteItems_def)
  from saveAsBMP_Inr_createHeader [OF out] obtain h
    where h: "createHeader width height 8 = Inr h" by blast
  define bytes1 where "bytes1 = fillPalette (h_bytes h) palette"
  have hr: "h_rowSizeBase h = width" "h_deltaBase h = delta"
    using createHeader_Inr(4,5) [OF h] rs by (simp_all add: delta_def)
  have o: "out = fillColorData_8_loop clArray width delta 0 1078 0
                   ((height - 1 - 0) * width) bytes1"
    using out h pl
    by (simp add: saveAsBMP_def switch_encoding_def fillColorData_8_def Let_def hr bytes1_def
        assms(3) consts_defs algebra_simps)
  have "fileByteSize width height 8 = 1078 + height * (width + delta)"
    by (simp add: fileByteSize_def getPixelBytes_pixelSize rs delta_def getPaletteBytes_def
        consts_defs mult.commute)
  then have len: "1078 + height * (width + delta) \<le> int (length bytes1)"
    using length_createHeader [OF h] by (simp add: bytes1_def fillPalette_def)
  have content: "out ! nat (1078 + r * (width + delta) + j)
      = (case js_get clArray ((height - 1 - r) * width + j) of Num n \<Rightarrow> n | _ \<Rightarrow> 0) mod 256"
    unfolding o
    using fillColorData_8_loop_content [OF assms(1) d0 assms(3) _ r(2) j,
        where r = 0 and j = 0 and k0 = 1078 and i = 0 and k = 1078 and i_row = 0
          and i_active = "(height - 1 - 0) * width" and bs = bytes1] r j assms(1) len
    by simp
  define a where "a = (height - 1 - r) * width + j"
  have "0 \<le> (height - 1 - r) * width" using r(2) assms(1) by simp
  then have a0: "0 \<le> a" unfolding a_def using j(1) by simp
  have "(height - 1 - r) * width \<le> (height - 1) * width"
    using r(1) assms(1) by (intro mult_right_mono) simp_all
  then have "a < (height - 1) * width + width" unfolding a_def using j(2) by simp
  then have a1: "a < int (length clArray)" unfolding assms(3) by (simp add: algebra_simps)
  show ?thesis
    using content a0 a1 unfolding delta_def a_def [symmetric] by (simp add: js_get_def)
qed

text \<open>
  Claim C1 (rows bottom-up with padding at all five depths). The encoders for depths 1
  and 8 do store the rows bottom-up and skip the padding (above and
  \<open>eight_bit_rows_bottom_up\<close>), as the comment before the encoders requires. At depths 16
  and 24 a 2-row image yields no pixel data at all, the encoder throws; and the loop of
  the 16-bit encoder, run on its own from offset 0 of an 8-byte buffer, stores the rows
  in source order and back to back (bottom-up with padding would be 2, 0, 0, 0, 1, 0, 0, 0).
\<close>

theorem depth_16_24_rows_not_written:
  "saveAsBMP [255, 65280] 1 2 24 [] = Inl TypeError
   \<and> saveAsBMP [255, 65280] 1 2 16 [] = Inl TypeError
   \<and> fillColorData_16_loop (replicate 8 0) 0 [1, 2] = [1, 0, 2, 0, 0, 0, 0, 0]"
  by (simp add: eval_defs fillColorData_24_throws fillColorData_16_throws numeral_eq_Suc)

end
